theory Spec2Isabelle
  imports Main "HOL-Library.Word"
begin

unbundle bit_operations_syntax

section \<open>The update queue of the reconciler (ReactUpdateQueue.js)\<close>

text \<open>
  The queue code works on three kinds of mutable objects: update records, update queues
  and fibers. Objects are shared by reference (two queues may hold the same tail record,
  a work-in-progress fiber may hold the very queue object of its current fiber), so the
  model keeps an explicit store: every object is a reference (a natural number) into a
  store of its kind, \<open>null\<close> is \<open>None\<close>, and every function takes the store and
  returns the updated one. A JavaScript reference always denotes a live object, hence
  the three stores are total functions.
\<close>

subsection \<open>Values\<close>

type_synonym ref = nat

type_synonym ExpirationTime = int

text \<open>
  State values (\<open>State\<close>, \<open>props\<close>, \<open>instance\<close> are \<open>any\<close> in the source):
  \<open>null\<close>, \<open>undefined\<close>, booleans, (integral) numbers and plain objects, an object being
  the map of its own enumerable properties. String primitives, arrays and accessor
  properties are outside the modelled universe. Object identity of state values is not
  modelled: a state object is its contents.
\<close>

datatype JSValue =
    JSNull
  | JSUndefined
  | JSBool bool
  | JSNumber int
  | JSObject "string \<Rightarrow> JSValue option"

text \<open>
  \<open>payload: any\<close> is a value, or a function that the code calls as
  \<open>payload.call(instance, prevState, nextProps)\<close>. The function is taken to be pure and
  total (the arguments are instance, previous state, next props, in this order).
\<close>

datatype Payload =
    PayloadValue JSValue
  | PayloadFunction "JSValue \<Rightarrow> JSValue \<Rightarrow> JSValue \<Rightarrow> JSValue"

text \<open>
  \<open>callback\<close> is \<open>null\<close> (\<open>CallbackValue JSNull\<close>), some other value that is not a
  function, or a function. A callback function is opaque: it is known by a number, and
  calling it is recorded in the store's \<open>called\<close> trace (with its \<open>this\<close>); it is
  taken not to touch the queues itself.
\<close>

datatype CallbackSlot =
    CallbackValue JSValue
  | CallbackFunction nat

datatype UpdateTag = UpdateState | ReplaceState | ForceUpdate | CaptureUpdate

datatype error = Invariant string CallbackSlot

subsection \<open>Objects and the store\<close>

record Update =
  expirationTime :: ExpirationTime
  tag :: UpdateTag
  payload :: Payload
  callback :: CallbackSlot
  nextUpdate :: "ref option"
  nextEffect :: "ref option"

record UpdateQueue =
  baseState :: JSValue
  firstUpdate :: "ref option"
  lastUpdate :: "ref option"
  firstCapturedUpdate :: "ref option"
  lastCapturedUpdate :: "ref option"
  firstEffect :: "ref option"
  lastEffect :: "ref option"
  firstCapturedEffect :: "ref option"
  lastCapturedEffect :: "ref option"

text \<open>The fields of a fiber that the queue code reads or writes.\<close>

record Fiber =
  alternate :: "ref option"
  updateQueue :: "ref option"
  memoizedState :: JSValue
  effectTag :: "32 word"
  fiberExpirationTime :: ExpirationTime

text \<open>
  \<open>queueCount\<close> is the allocator of queue objects: the queues allocated so far are the
  references below it, and an object literal that creates a queue takes the reference
  \<open>queueCount\<close> itself. \<open>hasForceUpdate\<close> is the module's global variable.
\<close>

record Heap =
  updates :: "ref \<Rightarrow> Update"
  queues :: "ref \<Rightarrow> UpdateQueue"
  fibers :: "ref \<Rightarrow> Fiber"
  queueCount :: nat
  hasForceUpdate :: bool
  called :: "(nat \<times> JSValue) list"

text \<open>
  Constants that the file imports from modules outside the sources at hand
  (\<open>NoWork\<close> from ReactFiberExpirationTime, the three effect tags from
  shared/ReactSideEffectTags): they are parameters of the model.
\<close>

record Constants =
  NoWork :: ExpirationTime
  Callback :: "32 word"
  ShouldCapture :: "32 word"
  DidCapture :: "32 word"

text \<open>Assignment to the fields of an object in the store.\<close>

definition setUpdate :: "ref \<Rightarrow> (Update \<Rightarrow> Update) \<Rightarrow> Heap \<Rightarrow> Heap" where
  "setUpdate u f h = h\<lparr>updates := (updates h)(u := f (updates h u))\<rparr>"

definition setQueue :: "ref \<Rightarrow> (UpdateQueue \<Rightarrow> UpdateQueue) \<Rightarrow> Heap \<Rightarrow> Heap" where
  "setQueue q f h = h\<lparr>queues := (queues h)(q := f (queues h q))\<rparr>"

definition setFiber :: "ref \<Rightarrow> (Fiber \<Rightarrow> Fiber) \<Rightarrow> Heap \<Rightarrow> Heap" where
  "setFiber x f h = h\<lparr>fibers := (fibers h)(x := f (fibers h x))\<rparr>"

text \<open>A new queue object: the literal is stored at the next free reference.\<close>

definition newQueue :: "UpdateQueue \<Rightarrow> Heap \<Rightarrow> ref \<times> Heap" where
  "newQueue Q h =
     (queueCount h, h\<lparr>queues := (queues h)(queueCount h := Q), queueCount := Suc (queueCount h)\<rparr>)"

subsection \<open>Creating and cloning queues, creating updates\<close>

definition createUpdateQueue :: "JSValue \<Rightarrow> UpdateQueue" where
  "createUpdateQueue bs =
     \<lparr>baseState = bs,
      firstUpdate = None, lastUpdate = None,
      firstCapturedUpdate = None, lastCapturedUpdate = None,
      firstEffect = None, lastEffect = None,
      firstCapturedEffect = None, lastCapturedEffect = None\<rparr>"

definition cloneUpdateQueue :: "UpdateQueue \<Rightarrow> UpdateQueue" where
  "cloneUpdateQueue currentQueue =
     \<lparr>baseState = baseState currentQueue,
      firstUpdate = firstUpdate currentQueue, lastUpdate = lastUpdate currentQueue,
      firstCapturedUpdate = None, lastCapturedUpdate = None,
      firstEffect = None, lastEffect = None,
      firstCapturedEffect = None, lastCapturedEffect = None\<rparr>"

definition createUpdate :: "ExpirationTime \<Rightarrow> Update" where
  "createUpdate t =
     \<lparr>expirationTime = t, tag = UpdateState, payload = PayloadValue JSNull,
      callback = CallbackValue JSNull, nextUpdate = None, nextEffect = None\<rparr>"

subsection \<open>Enqueueing\<close>

definition appendUpdateToQueue :: "ref \<Rightarrow> ref \<Rightarrow> Heap \<Rightarrow> Heap" where
  "appendUpdateToQueue queue update h =
     (case lastUpdate (queues h queue) of
        None \<Rightarrow> setQueue queue (\<lambda>Q. Q\<lparr>firstUpdate := Some update, lastUpdate := Some update\<rparr>) h
      | Some l \<Rightarrow>
          setQueue queue (\<lambda>Q. Q\<lparr>lastUpdate := Some update\<rparr>)
            (setUpdate l (\<lambda>U. U\<lparr>nextUpdate := Some update\<rparr>) h))"

text \<open>
  The first half of \<open>enqueueUpdate\<close>: queues are created lazily. The result is
  \<open>queue1\<close>, \<open>queue2\<close> (\<open>None\<close> is \<open>null\<close>) and the store.
\<close>

definition enqueueUpdateQueues :: "ref \<Rightarrow> Heap \<Rightarrow> ref \<times> ref option \<times> Heap" where
  "enqueueUpdateQueues fiber h =
     (case alternate (fibers h fiber) of
        None \<Rightarrow>
          (case updateQueue (fibers h fiber) of
             None \<Rightarrow>
               (let (q1, h1) = newQueue (createUpdateQueue (memoizedState (fibers h fiber))) h
                in (q1, None, setFiber fiber (\<lambda>F. F\<lparr>updateQueue := Some q1\<rparr>) h1))
           | Some q1 \<Rightarrow> (q1, None, h))
      | Some alt \<Rightarrow>
          (case updateQueue (fibers h fiber) of
             None \<Rightarrow>
               (case updateQueue (fibers h alt) of
                  None \<Rightarrow>
                    (let (q1, h1) = newQueue (createUpdateQueue (memoizedState (fibers h fiber))) h;
                         h2 = setFiber fiber (\<lambda>F. F\<lparr>updateQueue := Some q1\<rparr>) h1;
                         (q2, h3) = newQueue (createUpdateQueue (memoizedState (fibers h2 alt))) h2
                     in (q1, Some q2, setFiber alt (\<lambda>F. F\<lparr>updateQueue := Some q2\<rparr>) h3))
                | Some q2 \<Rightarrow>
                    (let (q1, h1) = newQueue (cloneUpdateQueue (queues h q2)) h
                     in (q1, Some q2, setFiber fiber (\<lambda>F. F\<lparr>updateQueue := Some q1\<rparr>) h1)))
           | Some q1 \<Rightarrow>
               (case updateQueue (fibers h alt) of
                  None \<Rightarrow>
                    (let (q2, h1) = newQueue (cloneUpdateQueue (queues h q1)) h
                     in (q1, Some q2, setFiber alt (\<lambda>F. F\<lparr>updateQueue := Some q2\<rparr>) h1))
                | Some q2 \<Rightarrow> (q1, Some q2, h))))"

definition enqueueUpdate :: "ref \<Rightarrow> ref \<Rightarrow> Heap \<Rightarrow> Heap" where
  "enqueueUpdate fiber update h =
     (let (queue1, queue2, h1) = enqueueUpdateQueues fiber h
      in case queue2 of
           None \<Rightarrow> appendUpdateToQueue queue1 update h1
         | Some q2 \<Rightarrow>
             if queue1 = q2 then appendUpdateToQueue queue1 update h1
             else if lastUpdate (queues h1 queue1) = None \<or> lastUpdate (queues h1 q2) = None
             then appendUpdateToQueue q2 update (appendUpdateToQueue queue1 update h1)
             else setQueue q2 (\<lambda>Q. Q\<lparr>lastUpdate := Some update\<rparr>)
                    (appendUpdateToQueue queue1 update h1))"

definition ensureWorkInProgressQueueIsAClone :: "ref \<Rightarrow> ref \<Rightarrow> Heap \<Rightarrow> ref \<times> Heap" where
  "ensureWorkInProgressQueueIsAClone workInProgress queue h =
     (case alternate (fibers h workInProgress) of
        None \<Rightarrow> (queue, h)
      | Some current \<Rightarrow>
          if Some queue = updateQueue (fibers h current)
          then (let (q, h1) = newQueue (cloneUpdateQueue (queues h queue)) h
                in (q, setFiber workInProgress (\<lambda>F. F\<lparr>updateQueue := Some q\<rparr>) h1))
          else (queue, h))"

definition enqueueCapturedUpdate :: "ref \<Rightarrow> ref \<Rightarrow> Heap \<Rightarrow> Heap" where
  "enqueueCapturedUpdate workInProgress update h =
     (let (workInProgressQueue, h1) =
            (case updateQueue (fibers h workInProgress) of
               None \<Rightarrow>
                 (let (q, h') =
                        newQueue (createUpdateQueue (memoizedState (fibers h workInProgress))) h
                  in (q, setFiber workInProgress (\<lambda>F. F\<lparr>updateQueue := Some q\<rparr>) h'))
             | Some q \<Rightarrow> ensureWorkInProgressQueueIsAClone workInProgress q h)
      in case lastCapturedUpdate (queues h1 workInProgressQueue) of
           None \<Rightarrow>
             setQueue workInProgressQueue
               (\<lambda>Q. Q\<lparr>firstCapturedUpdate := Some update, lastCapturedUpdate := Some update\<rparr>) h1
         | Some l \<Rightarrow>
             setQueue workInProgressQueue (\<lambda>Q. Q\<lparr>lastCapturedUpdate := Some update\<rparr>)
               (setUpdate l (\<lambda>U. U\<lparr>nextUpdate := Some update\<rparr>) h1))"

subsection \<open>Computing the next state\<close>

text \<open>
  \<open>Object.assign(target, ...sources)\<close> on the modelled values: the own enumerable
  properties of each source are copied onto the target from left to right, a later
  source overwriting an earlier one; \<open>null\<close>, \<open>undefined\<close>, booleans and numbers
  have no such properties.
\<close>

fun ownProperties :: "JSValue \<Rightarrow> (string \<Rightarrow> JSValue option)" where
  "ownProperties (JSObject m) = m"
| "ownProperties _ = Map.empty"

definition objectAssign :: "(string \<Rightarrow> JSValue option) \<Rightarrow> JSValue list \<Rightarrow> JSValue" where
  "objectAssign target sources = JSObject (fold (\<lambda>s t. t ++ ownProperties s) sources target)"

text \<open>
  The block of \<open>case UpdateState\<close>, which \<open>case CaptureUpdate\<close> falls through to.
  (The development-only second call of the payload function is left out: the function
  is pure.)
\<close>

definition updateStateCase ::
  "ref \<Rightarrow> JSValue \<Rightarrow> JSValue \<Rightarrow> JSValue \<Rightarrow> Heap \<Rightarrow> JSValue \<times> Heap" where
  "updateStateCase update prevState nextProps instance h =
     (let partialState =
            (case payload (updates h update) of
               PayloadFunction f \<Rightarrow> f instance prevState nextProps
             | PayloadValue v \<Rightarrow> v)
      in if partialState = JSNull \<or> partialState = JSUndefined then (prevState, h)
         else (objectAssign Map.empty [prevState, partialState], h))"

definition getStateFromUpdate ::
  "Constants \<Rightarrow> ref \<Rightarrow> ref \<Rightarrow> ref \<Rightarrow> JSValue \<Rightarrow> JSValue \<Rightarrow> JSValue \<Rightarrow> Heap
     \<Rightarrow> JSValue \<times> Heap" where
  "getStateFromUpdate c workInProgress queue update prevState nextProps instance h =
     (case tag (updates h update) of
        ReplaceState \<Rightarrow>
          (case payload (updates h update) of
             PayloadFunction f \<Rightarrow> (f instance prevState nextProps, h)
           | PayloadValue v \<Rightarrow> (v, h))
      | CaptureUpdate \<Rightarrow>
          updateStateCase update prevState nextProps instance
            (setFiber workInProgress
               (\<lambda>F. F\<lparr>effectTag := (effectTag F AND NOT (ShouldCapture c)) OR DidCapture c\<rparr>) h)
      | UpdateState \<Rightarrow> updateStateCase update prevState nextProps instance h
      | ForceUpdate \<Rightarrow> (prevState, h\<lparr>hasForceUpdate := True\<rparr>))"

subsection \<open>Processing the queue\<close>

text \<open>The local variables of \<open>processUpdateQueue\<close>, together with the store.\<close>

record ProcessState =
  heap :: Heap
  update :: "ref option"
  newBaseState :: JSValue
  newFirstUpdate :: "ref option"
  newFirstCapturedUpdate :: "ref option"
  newExpirationTime :: ExpirationTime
  resultState :: JSValue

text \<open>
  The branch of both loops for an update of sufficient priority, up to the callback
  test: the new result and, for an update with a callback, the effect tag and the reset
  of \<open>nextEffect\<close>.
\<close>

definition applyUpdate ::
  "Constants \<Rightarrow> ref \<Rightarrow> ref \<Rightarrow> JSValue \<Rightarrow> JSValue \<Rightarrow> ref \<Rightarrow> ProcessState \<Rightarrow> ProcessState" where
  "applyUpdate c workInProgress queue props instance u s =
     (let (st, h1) = getStateFromUpdate c workInProgress queue u (resultState s) props instance (heap s);
          h2 = (if callback (updates h1 u) \<noteq> CallbackValue JSNull
                then setUpdate u (\<lambda>U. U\<lparr>nextEffect := None\<rparr>)
                       (setFiber workInProgress (\<lambda>F. F\<lparr>effectTag := effectTag F OR Callback c\<rparr>) h1)
                else h1)
      in s\<lparr>resultState := st, heap := h2\<rparr>)"

text \<open>The body of the first loop, over the list of updates.\<close>

definition processUpdate ::
  "Constants \<Rightarrow> ref \<Rightarrow> ref \<Rightarrow> JSValue \<Rightarrow> JSValue \<Rightarrow> ExpirationTime \<Rightarrow> ref \<Rightarrow> ProcessState
     \<Rightarrow> ProcessState" where
  "processUpdate c workInProgress queue props instance renderExpirationTime u s =
     (let updateExpirationTime = expirationTime (updates (heap s) u);
          s1 =
            (if updateExpirationTime < renderExpirationTime then
               (let s' = (if newFirstUpdate s = None
                          then s\<lparr>newFirstUpdate := Some u, newBaseState := resultState s\<rparr>
                          else s)
                in if newExpirationTime s' < updateExpirationTime
                   then s'\<lparr>newExpirationTime := updateExpirationTime\<rparr> else s')
             else
               (let s' = applyUpdate c workInProgress queue props instance u s;
                    h = heap s'
                in if callback (updates h u) \<noteq> CallbackValue JSNull then
                     (case lastEffect (queues h queue) of
                        None \<Rightarrow>
                          s'\<lparr>heap := setQueue queue
                                (\<lambda>Q. Q\<lparr>firstEffect := Some u, lastEffect := Some u\<rparr>) h\<rparr>
                      | Some l \<Rightarrow>
                          s'\<lparr>heap := setQueue queue (\<lambda>Q. Q\<lparr>lastEffect := Some u\<rparr>)
                                (setUpdate l (\<lambda>U. U\<lparr>nextEffect := Some u\<rparr>) h)\<rparr>)
                   else s'))
      in s1\<lparr>update := nextUpdate (updates (heap s1) u)\<rparr>)"

text \<open>The body of the second loop, over the list of captured updates.\<close>

definition processCapturedUpdate ::
  "Constants \<Rightarrow> ref \<Rightarrow> ref \<Rightarrow> JSValue \<Rightarrow> JSValue \<Rightarrow> ExpirationTime \<Rightarrow> ref \<Rightarrow> ProcessState
     \<Rightarrow> ProcessState" where
  "processCapturedUpdate c workInProgress queue props instance renderExpirationTime u s =
     (let updateExpirationTime = expirationTime (updates (heap s) u);
          s1 =
            (if updateExpirationTime < renderExpirationTime then
               (let s' = (if newFirstCapturedUpdate s = None
                          then (let s'' = s\<lparr>newFirstCapturedUpdate := Some u\<rparr>
                                in if newFirstUpdate s'' = None
                                   then s''\<lparr>newBaseState := resultState s''\<rparr> else s'')
                          else s)
                in if newExpirationTime s' < updateExpirationTime
                   then s'\<lparr>newExpirationTime := updateExpirationTime\<rparr> else s')
             else
               (let s' = applyUpdate c workInProgress queue props instance u s;
                    h = heap s'
                in if callback (updates h u) \<noteq> CallbackValue JSNull then
                     (case lastCapturedEffect (queues h queue) of
                        None \<Rightarrow>
                          s'\<lparr>heap := setQueue queue
                                (\<lambda>Q. Q\<lparr>firstCapturedEffect := Some u, lastCapturedEffect := Some u\<rparr>) h\<rparr>
                      | Some l \<Rightarrow>
                          s'\<lparr>heap := setQueue queue (\<lambda>Q. Q\<lparr>lastCapturedEffect := Some u\<rparr>)
                                (setUpdate l (\<lambda>U. U\<lparr>nextEffect := Some u\<rparr>) h)\<rparr>)
                   else s'))
      in s1\<lparr>update := nextUpdate (updates (heap s1) u)\<rparr>)"

text \<open>
  The two \<open>while (update !== null)\<close> loops. A list of updates that runs into a cycle
  keeps the loop running for ever: the loops are partial, \<open>None\<close> meaning that the
  loop does not return.
\<close>

partial_function (option) processUpdates ::
  "Constants \<Rightarrow> ref \<Rightarrow> ref \<Rightarrow> JSValue \<Rightarrow> JSValue \<Rightarrow> ExpirationTime \<Rightarrow> ProcessState
     \<Rightarrow> ProcessState option" where
  "processUpdates c workInProgress queue props instance renderExpirationTime s =
     (case update s of
        None \<Rightarrow> Some s
      | Some u \<Rightarrow>
          processUpdates c workInProgress queue props instance renderExpirationTime
            (processUpdate c workInProgress queue props instance renderExpirationTime u s))"

partial_function (option) processCapturedUpdates ::
  "Constants \<Rightarrow> ref \<Rightarrow> ref \<Rightarrow> JSValue \<Rightarrow> JSValue \<Rightarrow> ExpirationTime \<Rightarrow> ProcessState
     \<Rightarrow> ProcessState option" where
  "processCapturedUpdates c workInProgress queue props instance renderExpirationTime s =
     (case update s of
        None \<Rightarrow> Some s
      | Some u \<Rightarrow>
          processCapturedUpdates c workInProgress queue props instance renderExpirationTime
            (processCapturedUpdate c workInProgress queue props instance renderExpirationTime u s))"

text \<open>What \<open>processUpdateQueue\<close> does after the two loops.\<close>

definition finishProcessing :: "Constants \<Rightarrow> ref \<Rightarrow> ref \<Rightarrow> ProcessState \<Rightarrow> Heap" where
  "finishProcessing c workInProgress queue s =
     (let h1 = (if newFirstUpdate s = None
                then setQueue queue (\<lambda>Q. Q\<lparr>lastUpdate := None\<rparr>) (heap s) else heap s);
          h2 = (if newFirstCapturedUpdate s = None
                then setQueue queue (\<lambda>Q. Q\<lparr>lastCapturedUpdate := None\<rparr>) h1
                else setFiber workInProgress
                       (\<lambda>F. F\<lparr>effectTag := effectTag F OR Callback c\<rparr>) h1);
          nbs = (if newFirstUpdate s = None \<and> newFirstCapturedUpdate s = None
                 then resultState s else newBaseState s);
          h3 = setQueue queue
                 (\<lambda>Q. Q\<lparr>baseState := nbs, firstUpdate := newFirstUpdate s,
                        firstCapturedUpdate := newFirstCapturedUpdate s\<rparr>) h2
      in setFiber workInProgress
           (\<lambda>F. F\<lparr>fiberExpirationTime := newExpirationTime s, memoizedState := resultState s\<rparr>) h3)"

definition processUpdateQueue ::
  "Constants \<Rightarrow> ref \<Rightarrow> ref \<Rightarrow> JSValue \<Rightarrow> JSValue \<Rightarrow> ExpirationTime \<Rightarrow> Heap \<Rightarrow> Heap option" where
  "processUpdateQueue c workInProgress queue0 props instance renderExpirationTime h =
     (let (queue, h1) =
            ensureWorkInProgressQueueIsAClone workInProgress queue0 (h\<lparr>hasForceUpdate := False\<rparr>);
          s0 = \<lparr>heap = h1, update = firstUpdate (queues h1 queue),
                newBaseState = baseState (queues h1 queue), newFirstUpdate = None,
                newFirstCapturedUpdate = None, newExpirationTime = NoWork c,
                resultState = baseState (queues h1 queue)\<rparr>
      in case processUpdates c workInProgress queue props instance renderExpirationTime s0 of
           None \<Rightarrow> None
         | Some s1 \<Rightarrow>
             (case processCapturedUpdates c workInProgress queue props instance
                     renderExpirationTime
                     (s1\<lparr>update := firstCapturedUpdate (queues (heap s1) queue)\<rparr>) of
                None \<Rightarrow> None
              | Some s2 \<Rightarrow> Some (finishProcessing c workInProgress queue s2)))"

subsection \<open>Committing\<close>

text \<open>
  \<open>invariant\<close> throws when its condition is false. A throw leaves the store as it is
  at that moment: the outcome of a function that may throw is \<open>Inl\<close> of the error and
  the store, or \<open>Inr\<close> of the store.
\<close>

definition callCallback :: "CallbackSlot \<Rightarrow> JSValue \<Rightarrow> Heap \<Rightarrow> (error \<times> Heap) + Heap" where
  "callCallback cb context h =
     (case cb of
        CallbackFunction f \<Rightarrow> Inr (h\<lparr>called := called h @ [(f, context)]\<rparr>)
      | CallbackValue v \<Rightarrow>
          Inl (Invariant ''Invalid argument passed as callback. Expected a function.'' cb, h))"

partial_function (option) commitUpdateEffects ::
  "ref option \<Rightarrow> JSValue \<Rightarrow> Heap \<Rightarrow> ((error \<times> Heap) + Heap) option" where
  "commitUpdateEffects effect instance h =
     (case effect of
        None \<Rightarrow> Some (Inr h)
      | Some e \<Rightarrow>
          if callback (updates h e) \<noteq> CallbackValue JSNull then
            (case callCallback (callback (updates h e)) instance
                    (setUpdate e (\<lambda>U. U\<lparr>callback := CallbackValue JSNull\<rparr>) h) of
               Inl err \<Rightarrow> Some (Inl err)
             | Inr h1 \<Rightarrow> commitUpdateEffects (nextEffect (updates h1 e)) instance h1)
          else commitUpdateEffects (nextEffect (updates h e)) instance h)"

text \<open>
  The first statement of \<open>commitUpdateQueue\<close>: if the list of captured updates is
  not empty, it is joined to the end of the list of updates, provided that this list is
  not empty, and then cleared.
\<close>

definition joinCapturedUpdates :: "ref \<Rightarrow> Heap \<Rightarrow> Heap" where
  "joinCapturedUpdates finishedQueue h =
     (if firstCapturedUpdate (queues h finishedQueue) \<noteq> None then
        (let h' =
               (case lastUpdate (queues h finishedQueue) of
                  None \<Rightarrow> h
                | Some l \<Rightarrow>
                    (let h'' = setUpdate l
                           (\<lambda>U. U\<lparr>nextUpdate := firstCapturedUpdate (queues h finishedQueue)\<rparr>) h
                     in setQueue finishedQueue
                          (\<lambda>Q. Q\<lparr>lastUpdate := lastCapturedUpdate (queues h'' finishedQueue)\<rparr>) h''))
         in setQueue finishedQueue
              (\<lambda>Q. Q\<lparr>firstCapturedUpdate := None, lastCapturedUpdate := None\<rparr>) h')
      else h)"

definition commitUpdateQueue ::
  "ref \<Rightarrow> ref \<Rightarrow> JSValue \<Rightarrow> ExpirationTime \<Rightarrow> Heap \<Rightarrow> ((error \<times> Heap) + Heap) option" where
  "commitUpdateQueue finishedWork finishedQueue instance renderExpirationTime h =
     (let h1 = joinCapturedUpdates finishedQueue h
      in case commitUpdateEffects (firstEffect (queues h1 finishedQueue)) instance h1 of
           None \<Rightarrow> None
         | Some (Inl err) \<Rightarrow> Some (Inl err)
         | Some (Inr h2) \<Rightarrow>
             (let h3 = setQueue finishedQueue (\<lambda>Q. Q\<lparr>firstEffect := None, lastEffect := None\<rparr>) h2
              in case commitUpdateEffects (firstCapturedEffect (queues h3 finishedQueue)) instance h3 of
                   None \<Rightarrow> None
                 | Some (Inl err) \<Rightarrow> Some (Inl err)
                 | Some (Inr h4) \<Rightarrow>
                     Some (Inr (setQueue finishedQueue
                                 (\<lambda>Q. Q\<lparr>firstCapturedEffect := None, lastCapturedEffect := None\<rparr>) h4))))"

fun chain :: "(ref \<Rightarrow> ref option) \<Rightarrow> ref option \<Rightarrow> ref list \<Rightarrow> bool" where
  "chain nx p [] = (p = None)"
| "chain nx p (x # xs) = (p = Some x \<and> chain nx (nx x) xs)"

definition nextOf :: "Heap \<Rightarrow> ref \<Rightarrow> ref option" where
  "nextOf h r = nextUpdate (updates h r)"

definition sameRecords :: "Heap \<Rightarrow> Heap \<Rightarrow> bool" where
  "sameRecords h h' =
     (\<forall>r. expirationTime (updates h' r) = expirationTime (updates h r)
        \<and> tag (updates h' r) = tag (updates h r)
        \<and> payload (updates h' r) = payload (updates h r)
        \<and> callback (updates h' r) = callback (updates h r)
        \<and> nextUpdate (updates h' r) = nextUpdate (updates h r))"

definition insufficient :: "Heap \<Rightarrow> ExpirationTime \<Rightarrow> ref \<Rightarrow> bool" where
  "insufficient h renderExpirationTime u = (expirationTime (updates h u) < renderExpirationTime)"

definition stateAfter ::
  "Constants \<Rightarrow> ref \<Rightarrow> ref \<Rightarrow> JSValue \<Rightarrow> JSValue \<Rightarrow> Heap \<Rightarrow> ref list \<Rightarrow> JSValue \<Rightarrow> JSValue" where
  "stateAfter c w q props instance h us st =
     fold (\<lambda>u st. fst (getStateFromUpdate c w q u st props instance h)) us st"

definition startState :: "Constants \<Rightarrow> ref \<Rightarrow> Heap \<Rightarrow> ProcessState" where
  "startState c q h1 =
     \<lparr>heap = h1, update = firstUpdate (queues h1 q),
      newBaseState = baseState (queues h1 q), newFirstUpdate = None,
      newFirstCapturedUpdate = None, newExpirationTime = NoWork c,
      resultState = baseState (queues h1 q)\<rparr>"

definition afterLoops ::
  "Constants \<Rightarrow> ref \<Rightarrow> ref \<Rightarrow> JSValue \<Rightarrow> JSValue \<Rightarrow> ExpirationTime \<Rightarrow> Heap \<Rightarrow> ref list \<Rightarrow> ref list
     \<Rightarrow> ProcessState" where
  "afterLoops c w q p i r h1 ns cs =
     fold (processCapturedUpdate c w q p i r) cs
       ((fold (processUpdate c w q p i r) ns (startState c q h1))
          \<lparr>update := firstCapturedUpdate (queues h1 q)\<rparr>)"

text \<open>
  The queue object that a pass works on (the queue itself, or its fresh clone when the
  queue is the one of the current fiber), and the head of its list of captured updates
  when the loops start.
\<close>

definition workingQueue :: "ref \<Rightarrow> ref \<Rightarrow> Heap \<Rightarrow> ref" where
  "workingQueue w queue h = fst (ensureWorkInProgressQueueIsAClone w queue h)"

definition workingCaptured :: "ref \<Rightarrow> ref \<Rightarrow> Heap \<Rightarrow> ref option" where
  "workingCaptured w queue h =
     firstCapturedUpdate (queues (snd (ensureWorkInProgressQueueIsAClone w queue h))
                            (fst (ensureWorkInProgressQueueIsAClone w queue h)))"

definition nextEffectOf :: "Heap \<Rightarrow> ref \<Rightarrow> ref option" where
  "nextEffectOf h r = nextEffect (updates h r)"

text \<open>
  A well-formed effect list: the \<open>nextEffect\<close> pointers lead from the first pointer
  through the records of the list to \<open>null\<close>, and the last pointer is the last record.
\<close>

definition effectList :: "Heap \<Rightarrow> ref option \<Rightarrow> ref option \<Rightarrow> ref list \<Rightarrow> bool" where
  "effectList h first lst es =
     (chain (nextEffectOf h) first es \<and> lst = (if es = [] then None else Some (last es)))"

text \<open>The records of a list that a pass at \<open>r\<close> applies and that carry a callback.\<close>

definition appliedWithCallback :: "Heap \<Rightarrow> ExpirationTime \<Rightarrow> ref list \<Rightarrow> ref list" where
  "appliedWithCallback h r xs =
     filter (\<lambda>u. \<not> insufficient h r u \<and> callback (updates h u) \<noteq> CallbackValue JSNull) xs"

text \<open>
  The loop of \<open>commitUpdateEffects\<close> along a list of effects, and the store that an
  outcome leaves.
\<close>

fun commitEffectList :: "ref list \<Rightarrow> JSValue \<Rightarrow> Heap \<Rightarrow> (error \<times> Heap) + Heap" where
  "commitEffectList [] instance h = Inr h"
| "commitEffectList (e # es) instance h =
     (if callback (updates h e) \<noteq> CallbackValue JSNull then
        (case callCallback (callback (updates h e)) instance
                (setUpdate e (\<lambda>U. U\<lparr>callback := CallbackValue JSNull\<rparr>) h) of
           Inl err \<Rightarrow> Inl err
         | Inr h1 \<Rightarrow> commitEffectList es instance h1)
      else commitEffectList es instance h)"

definition outcomeHeap :: "(error \<times> Heap) + Heap \<Rightarrow> Heap" where
  "outcomeHeap out = (case out of Inl (e, h) \<Rightarrow> h | Inr h \<Rightarrow> h)"

text \<open>The calls that the callback functions of a list of records make up, in order.\<close>

definition invocations :: "Heap \<Rightarrow> JSValue \<Rightarrow> ref list \<Rightarrow> (nat \<times> JSValue) list" where
  "invocations h instance es =
     concat (map (\<lambda>e. case callback (updates h e) of
                         CallbackFunction f \<Rightarrow> [(f, instance)]
                       | CallbackValue v \<Rightarrow> []) es)"

definition callable :: "CallbackSlot \<Rightarrow> bool" where
  "callable cb = (case cb of CallbackFunction f \<Rightarrow> True | CallbackValue v \<Rightarrow> False)"

text \<open>Two stores whose update records differ in their callbacks at most.\<close>

definition sameLinks :: "Heap \<Rightarrow> Heap \<Rightarrow> bool" where
  "sameLinks h h' =
     (\<forall>x. nextUpdate (updates h' x) = nextUpdate (updates h x)
        \<and> nextEffect (updates h' x) = nextEffect (updates h x)
        \<and> expirationTime (updates h' x) = expirationTime (updates h x)
        \<and> tag (updates h' x) = tag (updates h x)
        \<and> payload (updates h' x) = payload (updates h x))"

text \<open>The outcome of \<open>commitUpdateQueue\<close> in terms of the two effect lists.\<close>

definition commitOutcome :: "ref \<Rightarrow> JSValue \<Rightarrow> ref list \<Rightarrow> ref list \<Rightarrow> Heap \<Rightarrow> (error \<times> Heap) + Heap" where
  "commitOutcome q inst es ces h =
     (case commitEffectList es inst (joinCapturedUpdates q h) of
        Inl err \<Rightarrow> Inl err
      | Inr h2 \<Rightarrow>
          (case commitEffectList ces inst
                  (setQueue q (\<lambda>Q. Q\<lparr>firstEffect := None, lastEffect := None\<rparr>) h2) of
             Inl err \<Rightarrow> Inl err
           | Inr h4 \<Rightarrow>
               Inr (setQueue q (\<lambda>Q. Q\<lparr>firstCapturedEffect := None, lastCapturedEffect := None\<rparr>) h4)))"

subsection \<open>Sample stores\<close>

text \<open>
  Sample values of the imported constants, an empty store, and a store in which fiber 0
  owns queue 0, a queue with the base state 7 and no pending update.
\<close>

definition sampleConstants :: Constants where
  "sampleConstants = \<lparr>NoWork = 0, Callback = 32, ShouldCapture = 2048, DidCapture = 64\<rparr>"

definition emptyHeap :: Heap where
  "emptyHeap =
     \<lparr>updates = (\<lambda>_. createUpdate 0),
      queues = (\<lambda>_. createUpdateQueue JSNull),
      fibers = (\<lambda>_. \<lparr>alternate = None, updateQueue = None, memoizedState = JSNull,
                      effectTag = 0, fiberExpirationTime = 0\<rparr>),
      queueCount = 0, hasForceUpdate = False, called = []\<rparr>"

definition resolvedHeap :: Heap where
  "resolvedHeap =
     setFiber 0 (\<lambda>F. F\<lparr>updateQueue := Some 0\<rparr>)
       (snd (newQueue (createUpdateQueue (JSNumber 7)) emptyHeap))"

text \<open>
  A store with three update records: record 0 merges the object \<open>{a: 1}\<close>, record 1
  has an updater function that returns \<open>undefined\<close>, record 2 replaces the state by
  the number 5.
\<close>

definition mergeHeap :: Heap where
  "mergeHeap =
     setUpdate 0 (\<lambda>U. U\<lparr>payload := PayloadValue (JSObject [''a'' \<mapsto> JSNumber 1])\<rparr>)
       (setUpdate 1 (\<lambda>U. U\<lparr>payload := PayloadFunction (\<lambda>this prev props. JSUndefined)\<rparr>)
          (setUpdate 2 (\<lambda>U. U\<lparr>tag := ReplaceState, payload := PayloadValue (JSNumber 5)\<rparr>)
             emptyHeap))"

text \<open>
  The example of the header comment of the source file, \<open>A - B - C - D\<close>, with digits
  for letters: an updater function that appends a digit to a number, four records that
  append 1, 2, 3, 4, the first and the third with expiration time 2, the second and the
  fourth with expiration time 1, enqueued in this order (they are the records 2, 3, 4, 5
  of the store) on fiber 0, whose state is 0.
  In \<open>capturedHeap\<close> a fifth record (record 6), of tag \<open>CaptureUpdate\<close> and expiration time 3,
  is enqueued as a captured update; its payload function wraps the state it sees into
  an object.
\<close>

definition appendDigit :: "int \<Rightarrow> Payload" where
  "appendDigit d =
     PayloadFunction (\<lambda>this prev props. case prev of JSNumber n \<Rightarrow> JSNumber (10 * n + d) | _ \<Rightarrow> prev)"

definition digitRecord :: "ExpirationTime \<Rightarrow> int \<Rightarrow> Update" where
  "digitRecord t d = (createUpdate t)\<lparr>tag := ReplaceState, payload := appendDigit d\<rparr>"

definition wrapSeen :: Payload where
  "wrapSeen = PayloadFunction (\<lambda>this prev props. JSObject [''seen'' \<mapsto> prev])"

definition capturedRecord :: Update where
  "capturedRecord = (createUpdate 3)\<lparr>tag := CaptureUpdate, payload := wrapSeen\<rparr>"

definition recordsHeap :: Heap where
  "recordsHeap =
     setUpdate 2 (\<lambda>_. digitRecord 2 1)
       (setUpdate 3 (\<lambda>_. digitRecord 1 2)
          (setUpdate 4 (\<lambda>_. digitRecord 2 3)
             (setUpdate 5 (\<lambda>_. digitRecord 1 4)
                (setUpdate 6 (\<lambda>_. capturedRecord)
                   (setFiber 0 (\<lambda>F. F\<lparr>memoizedState := JSNumber 0\<rparr>) emptyHeap)))))"

definition digitsHeap :: Heap where
  "digitsHeap = enqueueUpdate 0 5 (enqueueUpdate 0 4 (enqueueUpdate 0 3 (enqueueUpdate 0 2 recordsHeap)))"

definition capturedHeap :: Heap where
  "capturedHeap = enqueueCapturedUpdate 0 6 digitsHeap"

text \<open>
  A store whose queue holds a captured update (record 6, expiration time 3) and no
  other update.
\<close>

definition onlyCapturedHeap :: Heap where
  "onlyCapturedHeap = enqueueCapturedUpdate 0 6 recordsHeap"

text \<open>
  The order of urgency in the spec's words: a lower numeric value is a higher urgency,
  so a deadline is less urgent than another one when it is numerically greater.
\<close>

definition lessUrgentSpec :: "ExpirationTime \<Rightarrow> ExpirationTime \<Rightarrow> bool" where
  "lessUrgentSpec a b = (b < a)"

text \<open>A store whose queue holds one record (record 3, expiration time 1, appending 2).\<close>

definition oneRecordHeap :: Heap where
  "oneRecordHeap = enqueueUpdate 0 3 recordsHeap"

text \<open>
  The store \<open>digitsHeap\<close> after a commit-like pairing: fiber 2 is the current fiber,
  fiber 0 its work-in-progress alternate, and both hold the same queue object, queue 0
  (queue 1 belongs to some other fiber).
\<close>

definition pairedHeap :: Heap where
  "pairedHeap =
     setFiber 0 (\<lambda>F. F\<lparr>alternate := Some 2\<rparr>)
       (setFiber 2 (\<lambda>F. F\<lparr>alternate := Some 0, updateQueue := Some 0, memoizedState := JSNumber 0\<rparr>)
          (snd (newQueue (createUpdateQueue JSNull) digitsHeap)))"

text \<open>
  A sequence of passes over one queue, one pass for each render expiration time of the
  list: each later pass processes the queue object that the pass before it worked on,
  so it starts from the base state and the heads that this pass left there.
\<close>

fun processPasses ::
  "Constants \<Rightarrow> ref \<Rightarrow> ref \<Rightarrow> JSValue \<Rightarrow> JSValue \<Rightarrow> ExpirationTime list \<Rightarrow> Heap \<Rightarrow> Heap option" where
  "processPasses c w queue props instance [] h = Some h"
| "processPasses c w queue props instance (r # rs) h =
     (case processUpdateQueue c w queue props instance r h of
        None \<Rightarrow> None
      | Some h' \<Rightarrow> processPasses c w (workingQueue w queue h) props instance rs h')"

text \<open>
  A pass followed by the commit of the queue that the pass worked on (\<open>None\<close> also
  when a callback throws during the commit).
\<close>

definition passThenCommit ::
  "Constants \<Rightarrow> ref \<Rightarrow> ref \<Rightarrow> JSValue \<Rightarrow> JSValue \<Rightarrow> ExpirationTime \<Rightarrow> Heap \<Rightarrow> Heap option" where
  "passThenCommit c w queue props instance r h =
     (case processUpdateQueue c w queue props instance r h of
        None \<Rightarrow> None
      | Some h1 \<Rightarrow>
          (case commitUpdateQueue w (workingQueue w queue h) instance r h1 of
             Some (Inr h2) \<Rightarrow> Some h2
           | _ \<Rightarrow> None))"

text \<open>
  The store \<open>oneRecordHeap\<close> (record 3, expiration time 1, appending 2) with record 6
  (expiration time 3) enqueued as a captured update.
\<close>

definition mixedHeap :: Heap where
  "mixedHeap = enqueueCapturedUpdate 0 6 oneRecordHeap"

text \<open>
  A pair of fibers, 0 and 2, each the alternate of the other and none with a queue yet
  (the queue references 0 and 1 are taken), on which record 2 is enqueued: the pair gets
  two queue objects, 2 and 3, which both hold record 2 as their only and last record.
\<close>

definition twinHeap :: Heap where
  "twinHeap =
     enqueueUpdate 0 2
       (setFiber 0 (\<lambda>F. F\<lparr>alternate := Some 2\<rparr>)
          (setFiber 2 (\<lambda>F. F\<lparr>alternate := Some 0, memoizedState := JSNumber 0\<rparr>)
             (recordsHeap\<lparr>queueCount := 2\<rparr>)))"








lemma setUpdate_simps [simp]:
  "queues (setUpdate u f h) = queues h"
  "fibers (setUpdate u f h) = fibers h"
  "queueCount (setUpdate u f h) = queueCount h"
  "hasForceUpdate (setUpdate u f h) = hasForceUpdate h"
  "called (setUpdate u f h) = called h"
  "updates (setUpdate u f h) = (updates h)(u := f (updates h u))"
  by (simp_all add: setUpdate_def)

lemma setQueue_simps [simp]:
  "updates (setQueue q g h) = updates h"
  "fibers (setQueue q g h) = fibers h"
  "queueCount (setQueue q g h) = queueCount h"
  "hasForceUpdate (setQueue q g h) = hasForceUpdate h"
  "called (setQueue q g h) = called h"
  "queues (setQueue q g h) = (queues h)(q := g (queues h q))"
  by (simp_all add: setQueue_def)

lemma setFiber_simps [simp]:
  "updates (setFiber x k h) = updates h"
  "queues (setFiber x k h) = queues h"
  "queueCount (setFiber x k h) = queueCount h"
  "hasForceUpdate (setFiber x k h) = hasForceUpdate h"
  "called (setFiber x k h) = called h"
  "fibers (setFiber x k h) = (fibers h)(x := k (fibers h x))"
  by (simp_all add: setFiber_def)

lemma newQueue_simps [simp]:
  "fst (newQueue Q h) = queueCount h"
  "updates (snd (newQueue Q h)) = updates h"
  "fibers (snd (newQueue Q h)) = fibers h"
  "queueCount (snd (newQueue Q h)) = Suc (queueCount h)"
  "hasForceUpdate (snd (newQueue Q h)) = hasForceUpdate h"
  "called (snd (newQueue Q h)) = called h"
  "queues (snd (newQueue Q h)) = (queues h)(queueCount h := Q)"
  by (simp_all add: newQueue_def)

lemma sameRecords_refl [simp]: "sameRecords h h"
  by (simp add: sameRecords_def)

lemma sameRecords_trans: "sameRecords h h1 \<Longrightarrow> sameRecords h1 h2 \<Longrightarrow> sameRecords h h2"
  by (simp add: sameRecords_def)

lemma sameRecords_fields:
  assumes "sameRecords h h'"
  shows "expirationTime (updates h' r) = expirationTime (updates h r)"
    and "tag (updates h' r) = tag (updates h r)"
    and "payload (updates h' r) = payload (updates h r)"
    and "callback (updates h' r) = callback (updates h r)"
    and "nextUpdate (updates h' r) = nextUpdate (updates h r)"
  using assms by (simp_all add: sameRecords_def)

lemma sameRecords_updates_eq: "updates h' = updates h \<Longrightarrow> sameRecords h h'"
  by (simp add: sameRecords_def)

lemma sameRecords_setEffect:
  "sameRecords h h' \<Longrightarrow> sameRecords h (setUpdate u (\<lambda>U. U\<lparr>nextEffect := x\<rparr>) h')"
  by (simp add: sameRecords_def)

lemma updateStateCase_heap [simp]: "snd (updateStateCase u st p i h) = h"
  by (simp add: updateStateCase_def Let_def)

lemma getStateFromUpdate_updates [simp]:
  "updates (snd (getStateFromUpdate c w q u st p i h)) = updates h"
  by (simp add: getStateFromUpdate_def split: UpdateTag.split Payload.split)

lemma getStateFromUpdate_queues [simp]:
  "queues (snd (getStateFromUpdate c w q u st p i h)) = queues h"
  by (simp add: getStateFromUpdate_def split: UpdateTag.split Payload.split)

lemma getStateFromUpdate_called [simp]:
  "called (snd (getStateFromUpdate c w q u st p i h)) = called h"
  by (simp add: getStateFromUpdate_def split: UpdateTag.split Payload.split)

lemma getStateFromUpdate_queueCount [simp]:
  "queueCount (snd (getStateFromUpdate c w q u st p i h)) = queueCount h"
  by (simp add: getStateFromUpdate_def split: UpdateTag.split Payload.split)

lemma getStateFromUpdate_fibers:
  "x \<noteq> w \<Longrightarrow> fibers (snd (getStateFromUpdate c w q u st p i h)) x = fibers h x"
  by (simp add: getStateFromUpdate_def split: UpdateTag.split Payload.split)

lemma getStateFromUpdate_fiber_fields [simp]:
  "alternate (fibers (snd (getStateFromUpdate c w q u st p i h)) x) = alternate (fibers h x)"
  "updateQueue (fibers (snd (getStateFromUpdate c w q u st p i h)) x) = updateQueue (fibers h x)"
  by (simp_all add: getStateFromUpdate_def split: UpdateTag.split Payload.split)

lemma getStateFromUpdate_value:
  "sameRecords h h' \<Longrightarrow>
   fst (getStateFromUpdate c w q u st p i h') = fst (getStateFromUpdate c w' q' u st p i h)"
  by (simp add: getStateFromUpdate_def updateStateCase_def Let_def sameRecords_fields
           split: UpdateTag.split Payload.split)

lemma applyUpdate_fields [simp]:
  "resultState (applyUpdate c w q p i u s) = fst (getStateFromUpdate c w q u (resultState s) p i (heap s))"
  "update (applyUpdate c w q p i u s) = update s"
  "newBaseState (applyUpdate c w q p i u s) = newBaseState s"
  "newFirstUpdate (applyUpdate c w q p i u s) = newFirstUpdate s"
  "newFirstCapturedUpdate (applyUpdate c w q p i u s) = newFirstCapturedUpdate s"
  "newExpirationTime (applyUpdate c w q p i u s) = newExpirationTime s"
  by (simp_all add: applyUpdate_def Let_def case_prod_beta)

lemma applyUpdate_heap [simp]:
  "queues (heap (applyUpdate c w q p i u s)) = queues (heap s)"
  "called (heap (applyUpdate c w q p i u s)) = called (heap s)"
  "queueCount (heap (applyUpdate c w q p i u s)) = queueCount (heap s)"
  "alternate (fibers (heap (applyUpdate c w q p i u s)) x) = alternate (fibers (heap s) x)"
  "updateQueue (fibers (heap (applyUpdate c w q p i u s)) x) = updateQueue (fibers (heap s) x)"
  by (simp_all add: applyUpdate_def Let_def case_prod_beta)

lemma applyUpdate_fibers:
  "x \<noteq> w \<Longrightarrow> fibers (heap (applyUpdate c w q p i u s)) x = fibers (heap s) x"
  by (simp add: applyUpdate_def Let_def case_prod_beta getStateFromUpdate_fibers)

lemma applyUpdate_sameRecords: "sameRecords (heap s) (heap (applyUpdate c w q p i u s))"
  by (simp add: applyUpdate_def Let_def case_prod_beta sameRecords_def)

lemma applyUpdate_callback [simp]:
  "callback (updates (heap (applyUpdate c w q p i u s)) r) = callback (updates (heap s) r)"
  using applyUpdate_sameRecords [of s c w q p i u] by (simp add: sameRecords_def)

lemma processUpdate_sameRecords:
  "sameRecords (heap s) (heap (processUpdate c w q p i r u s))"
  using applyUpdate_sameRecords [of s c w q p i u]
  by (simp add: processUpdate_def Let_def sameRecords_def split: option.split)

lemma processUpdate_update [simp]:
  "update (processUpdate c w q p i r u s) = nextUpdate (updates (heap s) u)"
  using processUpdate_sameRecords [of s c w q p i r u]
  by (simp add: processUpdate_def Let_def sameRecords_def)

lemma processUpdate_resultState [simp]:
  "resultState (processUpdate c w q p i r u s) =
     (if expirationTime (updates (heap s) u) < r then resultState s
      else fst (getStateFromUpdate c w q u (resultState s) p i (heap s)))"
  by (simp add: processUpdate_def Let_def split: option.split)

lemma processUpdate_newFirstUpdate [simp]:
  "newFirstUpdate (processUpdate c w q p i r u s) =
     (if expirationTime (updates (heap s) u) < r \<and> newFirstUpdate s = None then Some u
      else newFirstUpdate s)"
  by (simp add: processUpdate_def Let_def split: option.split)

lemma processUpdate_newBaseState [simp]:
  "newBaseState (processUpdate c w q p i r u s) =
     (if expirationTime (updates (heap s) u) < r \<and> newFirstUpdate s = None then resultState s
      else newBaseState s)"
  by (simp add: processUpdate_def Let_def split: option.split)

lemma processUpdate_newExpirationTime [simp]:
  "newExpirationTime (processUpdate c w q p i r u s) =
     (if expirationTime (updates (heap s) u) < r
      then max (newExpirationTime s) (expirationTime (updates (heap s) u))
      else newExpirationTime s)"
  by (simp add: processUpdate_def Let_def max_def split: option.split)

lemma processUpdate_newFirstCapturedUpdate [simp]:
  "newFirstCapturedUpdate (processUpdate c w q p i r u s) = newFirstCapturedUpdate s"
  by (simp add: processUpdate_def Let_def split: option.split)

lemma processUpdate_frame [simp]:
  "called (heap (processUpdate c w q p i r u s)) = called (heap s)"
  "queueCount (heap (processUpdate c w q p i r u s)) = queueCount (heap s)"
  "alternate (fibers (heap (processUpdate c w q p i r u s)) x) = alternate (fibers (heap s) x)"
  "updateQueue (fibers (heap (processUpdate c w q p i r u s)) x) = updateQueue (fibers (heap s) x)"
  by (simp_all add: processUpdate_def Let_def split: option.split)

lemma processUpdate_fibers:
  "x \<noteq> w \<Longrightarrow> fibers (heap (processUpdate c w q p i r u s)) x = fibers (heap s) x"
  by (simp add: processUpdate_def Let_def applyUpdate_fibers split: option.split)

lemma processUpdate_queues:
  "q' \<noteq> q \<Longrightarrow> queues (heap (processUpdate c w q p i r u s)) q' = queues (heap s) q'"
  by (simp add: processUpdate_def Let_def split: option.split)

lemma processUpdate_queue_fields [simp]:
  "baseState (queues (heap (processUpdate c w q p i r u s)) q') = baseState (queues (heap s) q')"
  "firstUpdate (queues (heap (processUpdate c w q p i r u s)) q') = firstUpdate (queues (heap s) q')"
  "lastUpdate (queues (heap (processUpdate c w q p i r u s)) q') = lastUpdate (queues (heap s) q')"
  "firstCapturedUpdate (queues (heap (processUpdate c w q p i r u s)) q') = firstCapturedUpdate (queues (heap s) q')"
  "lastCapturedUpdate (queues (heap (processUpdate c w q p i r u s)) q') = lastCapturedUpdate (queues (heap s) q')"
  "firstCapturedEffect (queues (heap (processUpdate c w q p i r u s)) q') = firstCapturedEffect (queues (heap s) q')"
  "lastCapturedEffect (queues (heap (processUpdate c w q p i r u s)) q') = lastCapturedEffect (queues (heap s) q')"
  by (simp_all add: processUpdate_def Let_def split: option.split)

subsection \<open>The body of the loop over the captured list\<close>

lemma processCapturedUpdate_sameRecords:
  "sameRecords (heap s) (heap (processCapturedUpdate c w q p i r u s))"
  using applyUpdate_sameRecords [of s c w q p i u]
  by (simp add: processCapturedUpdate_def Let_def sameRecords_def split: option.split)

lemma processCapturedUpdate_update [simp]:
  "update (processCapturedUpdate c w q p i r u s) = nextUpdate (updates (heap s) u)"
  using processCapturedUpdate_sameRecords [of s c w q p i r u]
  by (simp add: processCapturedUpdate_def Let_def sameRecords_def)

lemma processCapturedUpdate_resultState [simp]:
  "resultState (processCapturedUpdate c w q p i r u s) =
     (if expirationTime (updates (heap s) u) < r then resultState s
      else fst (getStateFromUpdate c w q u (resultState s) p i (heap s)))"
  by (simp add: processCapturedUpdate_def Let_def split: option.split)

lemma processCapturedUpdate_newFirstUpdate [simp]:
  "newFirstUpdate (processCapturedUpdate c w q p i r u s) = newFirstUpdate s"
  by (simp add: processCapturedUpdate_def Let_def split: option.split)

lemma processCapturedUpdate_newFirstCapturedUpdate [simp]:
  "newFirstCapturedUpdate (processCapturedUpdate c w q p i r u s) =
     (if expirationTime (updates (heap s) u) < r \<and> newFirstCapturedUpdate s = None then Some u
      else newFirstCapturedUpdate s)"
  by (simp add: processCapturedUpdate_def Let_def split: option.split)

lemma processCapturedUpdate_newBaseState [simp]:
  "newBaseState (processCapturedUpdate c w q p i r u s) =
     (if expirationTime (updates (heap s) u) < r \<and> newFirstCapturedUpdate s = None
         \<and> newFirstUpdate s = None
      then resultState s else newBaseState s)"
  by (simp add: processCapturedUpdate_def Let_def split: option.split)

lemma processCapturedUpdate_newExpirationTime [simp]:
  "newExpirationTime (processCapturedUpdate c w q p i r u s) =
     (if expirationTime (updates (heap s) u) < r
      then max (newExpirationTime s) (expirationTime (updates (heap s) u))
      else newExpirationTime s)"
  by (simp add: processCapturedUpdate_def Let_def max_def split: option.split)

lemma processCapturedUpdate_frame [simp]:
  "called (heap (processCapturedUpdate c w q p i r u s)) = called (heap s)"
  "queueCount (heap (processCapturedUpdate c w q p i r u s)) = queueCount (heap s)"
  "alternate (fibers (heap (processCapturedUpdate c w q p i r u s)) x) = alternate (fibers (heap s) x)"
  "updateQueue (fibers (heap (processCapturedUpdate c w q p i r u s)) x) = updateQueue (fibers (heap s) x)"
  by (simp_all add: processCapturedUpdate_def Let_def split: option.split)

lemma processCapturedUpdate_fibers:
  "x \<noteq> w \<Longrightarrow> fibers (heap (processCapturedUpdate c w q p i r u s)) x = fibers (heap s) x"
  by (simp add: processCapturedUpdate_def Let_def applyUpdate_fibers split: option.split)

lemma processCapturedUpdate_queues:
  "q' \<noteq> q \<Longrightarrow> queues (heap (processCapturedUpdate c w q p i r u s)) q' = queues (heap s) q'"
  by (simp add: processCapturedUpdate_def Let_def split: option.split)

lemma processCapturedUpdate_queue_fields [simp]:
  "baseState (queues (heap (processCapturedUpdate c w q p i r u s)) q') = baseState (queues (heap s) q')"
  "firstUpdate (queues (heap (processCapturedUpdate c w q p i r u s)) q') = firstUpdate (queues (heap s) q')"
  "lastUpdate (queues (heap (processCapturedUpdate c w q p i r u s)) q') = lastUpdate (queues (heap s) q')"
  "firstCapturedUpdate (queues (heap (processCapturedUpdate c w q p i r u s)) q') = firstCapturedUpdate (queues (heap s) q')"
  "lastCapturedUpdate (queues (heap (processCapturedUpdate c w q p i r u s)) q') = lastCapturedUpdate (queues (heap s) q')"
  "firstEffect (queues (heap (processCapturedUpdate c w q p i r u s)) q') = firstEffect (queues (heap s) q')"
  "lastEffect (queues (heap (processCapturedUpdate c w q p i r u s)) q') = lastEffect (queues (heap s) q')"
  by (simp_all add: processCapturedUpdate_def Let_def split: option.split)

lemma stateAfter_simps [simp]:
  "stateAfter c w q p i h [] st = st"
  "stateAfter c w q p i h (u # us) st =
     stateAfter c w q p i h us (fst (getStateFromUpdate c w q u st p i h))"
  by (simp_all add: stateAfter_def)

lemma stateAfter_append:
  "stateAfter c w q p i h (us @ vs) st = stateAfter c w q p i h vs (stateAfter c w q p i h us st)"
  by (simp add: stateAfter_def)

lemma stateAfter_cong:
  "sameRecords h h' \<Longrightarrow> stateAfter c w q p i h' us st = stateAfter c w' q' p i h us st"
proof (induction us arbitrary: st)
  case Nil
  then show ?case by simp
next
  case (Cons u us)
  have "fst (getStateFromUpdate c w q u st p i h') = fst (getStateFromUpdate c w' q' u st p i h)"
    using Cons.prems by (rule getStateFromUpdate_value)
  then show ?case using Cons by simp
qed

lemma insufficient_cong:
  "sameRecords h h' \<Longrightarrow> insufficient h' r u = insufficient h r u"
  by (simp add: insufficient_def sameRecords_fields)

lemma chain_cong: "sameRecords h h' \<Longrightarrow> chain (nextOf h') p xs = chain (nextOf h) p xs"
  by (induction xs arbitrary: p) (simp_all add: nextOf_def sameRecords_fields)

lemma chain_unique: "chain nx p xs \<Longrightarrow> chain nx p ys \<Longrightarrow> xs = ys"
proof (induction xs arbitrary: p ys)
  case Nil
  then show ?case by (cases ys) simp_all
next
  case (Cons x xs)
  then show ?case by (cases ys) auto
qed

lemma chain_append:
  "chain nx p (xs @ ys) \<Longrightarrow> chain nx (if xs = [] then p else nx (last xs)) ys"
  by (induction xs arbitrary: p) (auto)

lemma chain_not_in_tail: "chain nx (nx x) xs \<Longrightarrow> x \<notin> set xs"
proof
  assume c: "chain nx (nx x) xs" and "x \<in> set xs"
  then obtain ys zs where xs: "xs = ys @ x # zs" by (meson split_list)
  from c have "chain nx (if ys = [] then nx x else nx (last ys)) (x # zs)"
    unfolding xs by (rule chain_append)
  then have "chain nx (nx x) zs" by simp
  with c have "xs = zs" by (rule chain_unique)
  with xs show False by simp
qed

lemma chain_distinct: "chain nx p xs \<Longrightarrow> distinct xs"
  by (induction xs arbitrary: p) (auto dest: chain_not_in_tail)

lemma processUpdates_fold:
  "chain (nextOf (heap s)) (update s) xs \<Longrightarrow>
   processUpdates c w q p i r s = Some (fold (processUpdate c w q p i r) xs s)"
proof (induction xs arbitrary: s)
  case Nil
  then show ?case by (subst processUpdates.simps) simp
next
  case (Cons x xs)
  let ?s = "processUpdate c w q p i r x s"
  from Cons.prems have u: "update s = Some x" and t: "chain (nextOf (heap s)) (nextOf (heap s) x) xs"
    by simp_all
  have "chain (nextOf (heap ?s)) (update ?s) xs"
    using t by (simp add: chain_cong [OF processUpdate_sameRecords] nextOf_def)
  then have "processUpdates c w q p i r ?s = Some (fold (processUpdate c w q p i r) xs ?s)"
    by (rule Cons.IH)
  then show ?case using u by (subst processUpdates.simps) simp
qed

lemma processCapturedUpdates_fold:
  "chain (nextOf (heap s)) (update s) xs \<Longrightarrow>
   processCapturedUpdates c w q p i r s = Some (fold (processCapturedUpdate c w q p i r) xs s)"
proof (induction xs arbitrary: s)
  case Nil
  then show ?case by (subst processCapturedUpdates.simps) simp
next
  case (Cons x xs)
  let ?s = "processCapturedUpdate c w q p i r x s"
  from Cons.prems have u: "update s = Some x" and t: "chain (nextOf (heap s)) (nextOf (heap s) x) xs"
    by simp_all
  have "chain (nextOf (heap ?s)) (update ?s) xs"
    using t by (simp add: chain_cong [OF processCapturedUpdate_sameRecords] nextOf_def)
  then have "processCapturedUpdates c w q p i r ?s
             = Some (fold (processCapturedUpdate c w q p i r) xs ?s)"
    by (rule Cons.IH)
  then show ?case using u by (subst processCapturedUpdates.simps) simp
qed

subsection \<open>What the loop over the normal list computes\<close>

lemma fold_processUpdate_sameRecords:
  "sameRecords h (heap s) \<Longrightarrow> sameRecords h (heap (fold (processUpdate c w q p i r) xs s))"
  by (induction xs arbitrary: s)
     (auto intro: sameRecords_trans [OF _ processUpdate_sameRecords])

lemma fold_processUpdate_resultState:
  "sameRecords h (heap s) \<Longrightarrow>
   resultState (fold (processUpdate c w q p i r) xs s) =
     stateAfter c w q p i h (filter (\<lambda>u. \<not> insufficient h r u) xs) (resultState s)"
proof (induction xs arbitrary: s)
  case Nil
  then show ?case by simp
next
  case (Cons x xs)
  have "sameRecords h (heap (processUpdate c w q p i r x s))"
    using Cons.prems by (rule sameRecords_trans [OF _ processUpdate_sameRecords])
  moreover have "fst (getStateFromUpdate c w q x (resultState s) p i (heap s))
                 = fst (getStateFromUpdate c w q x (resultState s) p i h)"
    using Cons.prems by (rule getStateFromUpdate_value)
  ultimately show ?case using Cons.IH [of "processUpdate c w q p i r x s"] Cons.prems
    by (simp add: insufficient_def sameRecords_fields)
qed

lemma fold_processUpdate_newFirstUpdate:
  "sameRecords h (heap s) \<Longrightarrow>
   newFirstUpdate (fold (processUpdate c w q p i r) xs s) =
     (case newFirstUpdate s of None \<Rightarrow> find (insufficient h r) xs | Some f \<Rightarrow> Some f)"
proof (induction xs arbitrary: s)
  case Nil
  then show ?case by (simp split: option.split)
next
  case (Cons x xs)
  have "sameRecords h (heap (processUpdate c w q p i r x s))"
    using Cons.prems by (rule sameRecords_trans [OF _ processUpdate_sameRecords])
  from Cons.IH [OF this] Cons.prems show ?case
    by (simp add: insufficient_def sameRecords_fields split: option.split)
qed

lemma fold_processUpdate_newBaseState:
  "sameRecords h (heap s) \<Longrightarrow>
   newBaseState (fold (processUpdate c w q p i r) xs s) =
     (if newFirstUpdate s = None \<and> find (insufficient h r) xs \<noteq> None
      then stateAfter c w q p i h (takeWhile (\<lambda>u. \<not> insufficient h r u) xs) (resultState s)
      else newBaseState s)"
proof (induction xs arbitrary: s)
  case Nil
  then show ?case by simp
next
  case (Cons x xs)
  have "sameRecords h (heap (processUpdate c w q p i r x s))"
    using Cons.prems by (rule sameRecords_trans [OF _ processUpdate_sameRecords])
  moreover have "fst (getStateFromUpdate c w q x (resultState s) p i (heap s))
                 = fst (getStateFromUpdate c w q x (resultState s) p i h)"
    using Cons.prems by (rule getStateFromUpdate_value)
  ultimately show ?case using Cons.IH [of "processUpdate c w q p i r x s"] Cons.prems
    by (auto simp add: insufficient_def sameRecords_fields)
qed

lemma Max_insert_max:
  "finite S \<Longrightarrow> Max (insert (max a b) S) = Max (insert a (insert (b::int) S))"
  by (cases "S = {}") (simp_all add: max.assoc)

lemma fold_processUpdate_newExpirationTime:
  "sameRecords h (heap s) \<Longrightarrow>
   newExpirationTime (fold (processUpdate c w q p i r) xs s) =
     Max (insert (newExpirationTime s)
            ((\<lambda>u. expirationTime (updates h u)) ` set (filter (insufficient h r) xs)))"
proof (induction xs arbitrary: s)
  case Nil
  then show ?case by simp
next
  case (Cons x xs)
  have "sameRecords h (heap (processUpdate c w q p i r x s))"
    using Cons.prems by (rule sameRecords_trans [OF _ processUpdate_sameRecords])
  from Cons.IH [OF this] Cons.prems show ?case
    by (simp add: insufficient_def sameRecords_fields Max_insert_max)
qed

lemma fold_processUpdate_misc [simp]:
  "newFirstCapturedUpdate (fold (processUpdate c w q p i r) xs s) = newFirstCapturedUpdate s"
  "called (heap (fold (processUpdate c w q p i r) xs s)) = called (heap s)"
  "queueCount (heap (fold (processUpdate c w q p i r) xs s)) = queueCount (heap s)"
  "alternate (fibers (heap (fold (processUpdate c w q p i r) xs s)) x) = alternate (fibers (heap s) x)"
  "updateQueue (fibers (heap (fold (processUpdate c w q p i r) xs s)) x) = updateQueue (fibers (heap s) x)"
  "baseState (queues (heap (fold (processUpdate c w q p i r) xs s)) q') = baseState (queues (heap s) q')"
  "firstUpdate (queues (heap (fold (processUpdate c w q p i r) xs s)) q') = firstUpdate (queues (heap s) q')"
  "lastUpdate (queues (heap (fold (processUpdate c w q p i r) xs s)) q') = lastUpdate (queues (heap s) q')"
  "firstCapturedUpdate (queues (heap (fold (processUpdate c w q p i r) xs s)) q') = firstCapturedUpdate (queues (heap s) q')"
  "lastCapturedUpdate (queues (heap (fold (processUpdate c w q p i r) xs s)) q') = lastCapturedUpdate (queues (heap s) q')"
  "firstCapturedEffect (queues (heap (fold (processUpdate c w q p i r) xs s)) q') = firstCapturedEffect (queues (heap s) q')"
  "lastCapturedEffect (queues (heap (fold (processUpdate c w q p i r) xs s)) q') = lastCapturedEffect (queues (heap s) q')"
  by (induction xs arbitrary: s) simp_all

lemma fold_processUpdate_queues:
  "q' \<noteq> q \<Longrightarrow> queues (heap (fold (processUpdate c w q p i r) xs s)) q' = queues (heap s) q'"
  by (induction xs arbitrary: s) (simp_all add: processUpdate_queues)

lemma fold_processUpdate_fibers:
  "x \<noteq> w \<Longrightarrow> fibers (heap (fold (processUpdate c w q p i r) xs s)) x = fibers (heap s) x"
  by (induction xs arbitrary: s) (simp_all add: processUpdate_fibers)

subsection \<open>What the loop over the captured list computes\<close>

lemma fold_processCapturedUpdate_sameRecords:
  "sameRecords h (heap s) \<Longrightarrow> sameRecords h (heap (fold (processCapturedUpdate c w q p i r) xs s))"
  by (induction xs arbitrary: s)
     (auto intro: sameRecords_trans [OF _ processCapturedUpdate_sameRecords])

lemma fold_processCapturedUpdate_resultState:
  "sameRecords h (heap s) \<Longrightarrow>
   resultState (fold (processCapturedUpdate c w q p i r) xs s) =
     stateAfter c w q p i h (filter (\<lambda>u. \<not> insufficient h r u) xs) (resultState s)"
proof (induction xs arbitrary: s)
  case Nil
  then show ?case by simp
next
  case (Cons x xs)
  have "sameRecords h (heap (processCapturedUpdate c w q p i r x s))"
    using Cons.prems by (rule sameRecords_trans [OF _ processCapturedUpdate_sameRecords])
  moreover have "fst (getStateFromUpdate c w q x (resultState s) p i (heap s))
                 = fst (getStateFromUpdate c w q x (resultState s) p i h)"
    using Cons.prems by (rule getStateFromUpdate_value)
  ultimately show ?case using Cons.IH [of "processCapturedUpdate c w q p i r x s"] Cons.prems
    by (simp add: insufficient_def sameRecords_fields)
qed

lemma fold_processCapturedUpdate_newFirstCapturedUpdate:
  "sameRecords h (heap s) \<Longrightarrow>
   newFirstCapturedUpdate (fold (processCapturedUpdate c w q p i r) xs s) =
     (case newFirstCapturedUpdate s of None \<Rightarrow> find (insufficient h r) xs | Some f \<Rightarrow> Some f)"
proof (induction xs arbitrary: s)
  case Nil
  then show ?case by (simp split: option.split)
next
  case (Cons x xs)
  have "sameRecords h (heap (processCapturedUpdate c w q p i r x s))"
    using Cons.prems by (rule sameRecords_trans [OF _ processCapturedUpdate_sameRecords])
  from Cons.IH [OF this] Cons.prems show ?case
    by (simp add: insufficient_def sameRecords_fields split: option.split)
qed

lemma fold_processCapturedUpdate_newBaseState:
  "sameRecords h (heap s) \<Longrightarrow>
   newBaseState (fold (processCapturedUpdate c w q p i r) xs s) =
     (if newFirstCapturedUpdate s = None \<and> newFirstUpdate s = None
         \<and> find (insufficient h r) xs \<noteq> None
      then stateAfter c w q p i h (takeWhile (\<lambda>u. \<not> insufficient h r u) xs) (resultState s)
      else newBaseState s)"
proof (induction xs arbitrary: s)
  case Nil
  then show ?case by simp
next
  case (Cons x xs)
  have "sameRecords h (heap (processCapturedUpdate c w q p i r x s))"
    using Cons.prems by (rule sameRecords_trans [OF _ processCapturedUpdate_sameRecords])
  moreover have "fst (getStateFromUpdate c w q x (resultState s) p i (heap s))
                 = fst (getStateFromUpdate c w q x (resultState s) p i h)"
    using Cons.prems by (rule getStateFromUpdate_value)
  ultimately show ?case using Cons.IH [of "processCapturedUpdate c w q p i r x s"] Cons.prems
    by (auto simp add: insufficient_def sameRecords_fields)
qed

lemma fold_processCapturedUpdate_newExpirationTime:
  "sameRecords h (heap s) \<Longrightarrow>
   newExpirationTime (fold (processCapturedUpdate c w q p i r) xs s) =
     Max (insert (newExpirationTime s)
            ((\<lambda>u. expirationTime (updates h u)) ` set (filter (insufficient h r) xs)))"
proof (induction xs arbitrary: s)
  case Nil
  then show ?case by simp
next
  case (Cons x xs)
  have "sameRecords h (heap (processCapturedUpdate c w q p i r x s))"
    using Cons.prems by (rule sameRecords_trans [OF _ processCapturedUpdate_sameRecords])
  from Cons.IH [OF this] Cons.prems show ?case
    by (simp add: insufficient_def sameRecords_fields Max_insert_max)
qed

lemma fold_processCapturedUpdate_misc [simp]:
  "newFirstUpdate (fold (processCapturedUpdate c w q p i r) xs s) = newFirstUpdate s"
  "called (heap (fold (processCapturedUpdate c w q p i r) xs s)) = called (heap s)"
  "queueCount (heap (fold (processCapturedUpdate c w q p i r) xs s)) = queueCount (heap s)"
  "alternate (fibers (heap (fold (processCapturedUpdate c w q p i r) xs s)) x) = alternate (fibers (heap s) x)"
  "updateQueue (fibers (heap (fold (processCapturedUpdate c w q p i r) xs s)) x) = updateQueue (fibers (heap s) x)"
  "baseState (queues (heap (fold (processCapturedUpdate c w q p i r) xs s)) q') = baseState (queues (heap s) q')"
  "firstUpdate (queues (heap (fold (processCapturedUpdate c w q p i r) xs s)) q') = firstUpdate (queues (heap s) q')"
  "lastUpdate (queues (heap (fold (processCapturedUpdate c w q p i r) xs s)) q') = lastUpdate (queues (heap s) q')"
  "firstCapturedUpdate (queues (heap (fold (processCapturedUpdate c w q p i r) xs s)) q') = firstCapturedUpdate (queues (heap s) q')"
  "lastCapturedUpdate (queues (heap (fold (processCapturedUpdate c w q p i r) xs s)) q') = lastCapturedUpdate (queues (heap s) q')"
  "firstEffect (queues (heap (fold (processCapturedUpdate c w q p i r) xs s)) q') = firstEffect (queues (heap s) q')"
  "lastEffect (queues (heap (fold (processCapturedUpdate c w q p i r) xs s)) q') = lastEffect (queues (heap s) q')"
  by (induction xs arbitrary: s) simp_all

lemma fold_processCapturedUpdate_queues:
  "q' \<noteq> q \<Longrightarrow> queues (heap (fold (processCapturedUpdate c w q p i r) xs s)) q' = queues (heap s) q'"
  by (induction xs arbitrary: s) (simp_all add: processCapturedUpdate_queues)

lemma fold_processCapturedUpdate_fibers:
  "x \<noteq> w \<Longrightarrow> fibers (heap (fold (processCapturedUpdate c w q p i r) xs s)) x = fibers (heap s) x"
  by (induction xs arbitrary: s) (simp_all add: processCapturedUpdate_fibers)

lemma ensure_updates [simp]:
  "updates (snd (ensureWorkInProgressQueueIsAClone w q0 h)) = updates h"
  "called (snd (ensureWorkInProgressQueueIsAClone w q0 h)) = called h"
  "hasForceUpdate (snd (ensureWorkInProgressQueueIsAClone w q0 h)) = hasForceUpdate h"
  "alternate (fibers (snd (ensureWorkInProgressQueueIsAClone w q0 h)) x) = alternate (fibers h x)"
  by (simp_all add: ensureWorkInProgressQueueIsAClone_def case_prod_beta split: option.split)

lemma ensure_queue_fields [simp]:
  "baseState (queues (snd (ensureWorkInProgressQueueIsAClone w q0 h))
                (fst (ensureWorkInProgressQueueIsAClone w q0 h))) = baseState (queues h q0)"
  "firstUpdate (queues (snd (ensureWorkInProgressQueueIsAClone w q0 h))
                (fst (ensureWorkInProgressQueueIsAClone w q0 h))) = firstUpdate (queues h q0)"
  "lastUpdate (queues (snd (ensureWorkInProgressQueueIsAClone w q0 h))
                (fst (ensureWorkInProgressQueueIsAClone w q0 h))) = lastUpdate (queues h q0)"
  by (simp_all add: ensureWorkInProgressQueueIsAClone_def case_prod_beta cloneUpdateQueue_def
        split: option.split)

lemma ensure_fibers:
  "x \<noteq> w \<Longrightarrow> fibers (snd (ensureWorkInProgressQueueIsAClone w q0 h)) x = fibers h x"
  by (simp add: ensureWorkInProgressQueueIsAClone_def case_prod_beta split: option.split)

lemma ensure_other_queues:
  "q' < queueCount h \<Longrightarrow> queues (snd (ensureWorkInProgressQueueIsAClone w q0 h)) q' = queues h q'"
  by (simp add: ensureWorkInProgressQueueIsAClone_def case_prod_beta split: option.split)

lemma ensure_hasForceUpdate [simp]:
  "fst (ensureWorkInProgressQueueIsAClone w q0 (h\<lparr>hasForceUpdate := b\<rparr>))
     = fst (ensureWorkInProgressQueueIsAClone w q0 h)"
  "queues (snd (ensureWorkInProgressQueueIsAClone w q0 (h\<lparr>hasForceUpdate := b\<rparr>)))
     = queues (snd (ensureWorkInProgressQueueIsAClone w q0 h))"
  "fibers (snd (ensureWorkInProgressQueueIsAClone w q0 (h\<lparr>hasForceUpdate := b\<rparr>)))
     = fibers (snd (ensureWorkInProgressQueueIsAClone w q0 h))"
  "queueCount (snd (ensureWorkInProgressQueueIsAClone w q0 (h\<lparr>hasForceUpdate := b\<rparr>)))
     = queueCount (snd (ensureWorkInProgressQueueIsAClone w q0 h))"
  by (simp_all add: ensureWorkInProgressQueueIsAClone_def case_prod_beta newQueue_def setFiber_def
        split: option.split)

lemma finishProcessing_simps [simp]:
  "updates (finishProcessing c w q s) = updates (heap s)"
  "called (finishProcessing c w q s) = called (heap s)"
  "queueCount (finishProcessing c w q s) = queueCount (heap s)"
  "hasForceUpdate (finishProcessing c w q s) = hasForceUpdate (heap s)"
  "memoizedState (fibers (finishProcessing c w q s) w) = resultState s"
  "fiberExpirationTime (fibers (finishProcessing c w q s) w) = newExpirationTime s"
  "alternate (fibers (finishProcessing c w q s) x) = alternate (fibers (heap s) x)"
  "updateQueue (fibers (finishProcessing c w q s) x) = updateQueue (fibers (heap s) x)"
  "effectTag (fibers (finishProcessing c w q s) x) =
     (if x = w \<and> newFirstCapturedUpdate s \<noteq> None
      then effectTag (fibers (heap s) x) OR Callback c else effectTag (fibers (heap s) x))"
  "firstUpdate (queues (finishProcessing c w q s) q) = newFirstUpdate s"
  "firstCapturedUpdate (queues (finishProcessing c w q s) q) = newFirstCapturedUpdate s"
  "baseState (queues (finishProcessing c w q s) q) =
     (if newFirstUpdate s = None \<and> newFirstCapturedUpdate s = None then resultState s
      else newBaseState s)"
  "lastUpdate (queues (finishProcessing c w q s) q) =
     (if newFirstUpdate s = None then None else lastUpdate (queues (heap s) q))"
  "lastCapturedUpdate (queues (finishProcessing c w q s) q) =
     (if newFirstCapturedUpdate s = None then None else lastCapturedUpdate (queues (heap s) q))"
  "firstEffect (queues (finishProcessing c w q s) q') = firstEffect (queues (heap s) q')"
  "lastEffect (queues (finishProcessing c w q s) q') = lastEffect (queues (heap s) q')"
  "firstCapturedEffect (queues (finishProcessing c w q s) q') = firstCapturedEffect (queues (heap s) q')"
  "lastCapturedEffect (queues (finishProcessing c w q s) q') = lastCapturedEffect (queues (heap s) q')"
  by (simp_all add: finishProcessing_def Let_def)

lemma finishProcessing_queues:
  "q' \<noteq> q \<Longrightarrow> queues (finishProcessing c w q s) q' = queues (heap s) q'"
  by (simp add: finishProcessing_def Let_def)

lemma finishProcessing_fibers:
  "x \<noteq> w \<Longrightarrow> fibers (finishProcessing c w q s) x = fibers (heap s) x"
  by (simp add: finishProcessing_def Let_def)

lemma startState_simps [simp]:
  "heap (startState c q h1) = h1"
  "update (startState c q h1) = firstUpdate (queues h1 q)"
  "newBaseState (startState c q h1) = baseState (queues h1 q)"
  "newFirstUpdate (startState c q h1) = None"
  "newFirstCapturedUpdate (startState c q h1) = None"
  "newExpirationTime (startState c q h1) = NoWork c"
  "resultState (startState c q h1) = baseState (queues h1 q)"
  by (simp_all add: startState_def)

lemma processUpdateQueue_eq:
  assumes E: "ensureWorkInProgressQueueIsAClone w q0 (h\<lparr>hasForceUpdate := False\<rparr>) = (q, h1)"
    and ns: "chain (nextOf h1) (firstUpdate (queues h1 q)) ns"
    and cs: "chain (nextOf h1) (firstCapturedUpdate (queues h1 q)) cs"
  shows "processUpdateQueue c w q0 p i r h
           = Some (finishProcessing c w q (afterLoops c w q p i r h1 ns cs))"
proof -
  let ?s0 = "startState c q h1"
  let ?s1 = "fold (processUpdate c w q p i r) ns ?s0"
  let ?s1' = "?s1\<lparr>update := firstCapturedUpdate (queues (heap ?s1) q)\<rparr>"
  have 1: "processUpdates c w q p i r ?s0 = Some ?s1"
    using ns by (intro processUpdates_fold) simp
  have "sameRecords h1 (heap ?s1)"
    by (rule fold_processUpdate_sameRecords) simp
  then have "chain (nextOf (heap ?s1')) (update ?s1') cs"
    using cs by (simp add: chain_cong)
  then have 2: "processCapturedUpdates c w q p i r ?s1'
                 = Some (fold (processCapturedUpdate c w q p i r) cs ?s1')"
    by (rule processCapturedUpdates_fold)
  show ?thesis
    using 1 2 unfolding processUpdateQueue_def E
    by (simp add: startState_def [symmetric] afterLoops_def)
qed

lemma afterLoops_sameRecords: "sameRecords h1 (heap (afterLoops c w q p i r h1 ns cs))"
  unfolding afterLoops_def
  by (rule fold_processCapturedUpdate_sameRecords)
     (simp add: fold_processUpdate_sameRecords)

lemma afterLoops_resultState:
  "resultState (afterLoops c w q p i r h1 ns cs) =
     stateAfter c w q p i h1 (filter (\<lambda>u. \<not> insufficient h1 r u) cs)
       (stateAfter c w q p i h1 (filter (\<lambda>u. \<not> insufficient h1 r u) ns) (baseState (queues h1 q)))"
  unfolding afterLoops_def
  by (subst fold_processCapturedUpdate_resultState [where h = h1])
     (simp_all add: fold_processUpdate_sameRecords fold_processUpdate_resultState [where h = h1])

lemma afterLoops_newFirstUpdate:
  "newFirstUpdate (afterLoops c w q p i r h1 ns cs) = find (insufficient h1 r) ns"
  unfolding afterLoops_def
  by (simp add: fold_processUpdate_newFirstUpdate [where h = h1])

lemma afterLoops_newFirstCapturedUpdate:
  "newFirstCapturedUpdate (afterLoops c w q p i r h1 ns cs) = find (insufficient h1 r) cs"
  unfolding afterLoops_def
  by (subst fold_processCapturedUpdate_newFirstCapturedUpdate [where h = h1])
     (simp_all add: fold_processUpdate_sameRecords)

lemma afterLoops_newBaseState:
  "newBaseState (afterLoops c w q p i r h1 ns cs) =
     (if find (insufficient h1 r) ns \<noteq> None
      then stateAfter c w q p i h1 (takeWhile (\<lambda>u. \<not> insufficient h1 r u) ns) (baseState (queues h1 q))
      else if find (insufficient h1 r) cs \<noteq> None
      then stateAfter c w q p i h1 (takeWhile (\<lambda>u. \<not> insufficient h1 r u) cs)
             (stateAfter c w q p i h1 (filter (\<lambda>u. \<not> insufficient h1 r u) ns) (baseState (queues h1 q)))
      else baseState (queues h1 q))"
  unfolding afterLoops_def
  by (subst fold_processCapturedUpdate_newBaseState [where h = h1])
     (simp_all add: fold_processUpdate_sameRecords fold_processUpdate_resultState [where h = h1]
        fold_processUpdate_newBaseState [where h = h1]
        fold_processUpdate_newFirstUpdate [where h = h1])

lemma afterLoops_newExpirationTime:
  "newExpirationTime (afterLoops c w q p i r h1 ns cs) =
     Max (insert (NoWork c)
            ((\<lambda>u. expirationTime (updates h1 u)) ` set (filter (insufficient h1 r) (ns @ cs))))"
proof -
  have fin: "Max (insert (Max (insert a A)) B) = Max (insert (a::int) (A \<union> B))"
    if "finite A" "finite B" for a A B
  proof (cases "B = {}")
    case True
    then show ?thesis by simp
  next
    case False
    have "Max (insert a A \<union> B) = max (Max (insert a A)) (Max B)"
      using that False by (intro Max_Un) simp_all
    then show ?thesis using that False by simp
  qed
  show ?thesis
    unfolding afterLoops_def
    by (subst fold_processCapturedUpdate_newExpirationTime [where h = h1])
       (simp_all add: fold_processUpdate_sameRecords
          fold_processUpdate_newExpirationTime [where h = h1] fin image_Un)
qed

lemma afterLoops_misc [simp]:
  "called (heap (afterLoops c w q p i r h1 ns cs)) = called h1"
  "queueCount (heap (afterLoops c w q p i r h1 ns cs)) = queueCount h1"
  "alternate (fibers (heap (afterLoops c w q p i r h1 ns cs)) x) = alternate (fibers h1 x)"
  "updateQueue (fibers (heap (afterLoops c w q p i r h1 ns cs)) x) = updateQueue (fibers h1 x)"
  "baseState (queues (heap (afterLoops c w q p i r h1 ns cs)) q') = baseState (queues h1 q')"
  "firstUpdate (queues (heap (afterLoops c w q p i r h1 ns cs)) q') = firstUpdate (queues h1 q')"
  "lastUpdate (queues (heap (afterLoops c w q p i r h1 ns cs)) q') = lastUpdate (queues h1 q')"
  "firstCapturedUpdate (queues (heap (afterLoops c w q p i r h1 ns cs)) q') = firstCapturedUpdate (queues h1 q')"
  "lastCapturedUpdate (queues (heap (afterLoops c w q p i r h1 ns cs)) q') = lastCapturedUpdate (queues h1 q')"
  by (simp_all add: afterLoops_def)

lemma afterLoops_queues:
  "q' \<noteq> q \<Longrightarrow> queues (heap (afterLoops c w q p i r h1 ns cs)) q' = queues h1 q'"
  by (simp add: afterLoops_def fold_processCapturedUpdate_queues fold_processUpdate_queues)

lemma afterLoops_fibers:
  "x \<noteq> w \<Longrightarrow> fibers (heap (afterLoops c w q p i r h1 ns cs)) x = fibers h1 x"
  by (simp add: afterLoops_def fold_processCapturedUpdate_fibers fold_processUpdate_fibers)

lemma nextOf_updates: "updates h' = updates h \<Longrightarrow> nextOf h' = nextOf h"
  by (rule ext) (simp add: nextOf_def)

lemma insufficient_updates: "updates h' = updates h \<Longrightarrow> insufficient h' = insufficient h"
  by (intro ext) (simp add: insufficient_def)

lemma ensure_queues_other:
  "q' \<noteq> fst (ensureWorkInProgressQueueIsAClone w q0 h) \<Longrightarrow>
   queues (snd (ensureWorkInProgressQueueIsAClone w q0 h)) q' = queues h q'"
  by (simp add: ensureWorkInProgressQueueIsAClone_def case_prod_beta
        split: option.splits if_splits)

lemma workingCaptured_cases:
  "workingCaptured w queue h = None \<or>
   (workingQueue w queue h = queue \<and> workingCaptured w queue h = firstCapturedUpdate (queues h queue))"
  by (simp add: workingCaptured_def workingQueue_def ensureWorkInProgressQueueIsAClone_def
        case_prod_beta cloneUpdateQueue_def split: option.splits)

lemma workingCaptured_None:
  "firstCapturedUpdate (queues h queue) = None \<Longrightarrow> workingCaptured w queue h = None"
  using workingCaptured_cases [of w queue h] by auto

lemma processUpdateQueue_run:
  assumes ns: "chain (nextOf h) (firstUpdate (queues h queue)) ns"
    and cs: "chain (nextOf h) (workingCaptured w queue h) cs"
  shows "\<exists>h'.
    processUpdateQueue c w queue p i r h = Some h'
    \<and> sameRecords h h'
    \<and> called h' = called h
    \<and> memoizedState (fibers h' w) =
       stateAfter c w queue p i h (filter (\<lambda>u. \<not> insufficient h r u) cs)
         (stateAfter c w queue p i h (filter (\<lambda>u. \<not> insufficient h r u) ns) (baseState (queues h queue)))
    \<and> fiberExpirationTime (fibers h' w) =
       Max (insert (NoWork c)
              ((\<lambda>u. expirationTime (updates h u)) ` set (filter (insufficient h r) (ns @ cs))))
    \<and> firstUpdate (queues h' (workingQueue w queue h)) = find (insufficient h r) ns
    \<and> firstCapturedUpdate (queues h' (workingQueue w queue h)) = find (insufficient h r) cs
    \<and> baseState (queues h' (workingQueue w queue h)) =
       (if find (insufficient h r) ns \<noteq> None
        then stateAfter c w queue p i h (takeWhile (\<lambda>u. \<not> insufficient h r u) ns) (baseState (queues h queue))
        else if find (insufficient h r) cs \<noteq> None
        then stateAfter c w queue p i h (takeWhile (\<lambda>u. \<not> insufficient h r u) cs)
               (stateAfter c w queue p i h (filter (\<lambda>u. \<not> insufficient h r u) ns) (baseState (queues h queue)))
        else memoizedState (fibers h' w))
    \<and> lastUpdate (queues h' (workingQueue w queue h)) =
       (if find (insufficient h r) ns = None then None else lastUpdate (queues h queue))
    \<and> (find (insufficient h r) cs = None \<longrightarrow> lastCapturedUpdate (queues h' (workingQueue w queue h)) = None)
    \<and> (\<forall>q'. q' \<noteq> workingQueue w queue h \<longrightarrow> queues h' q' = queues h q')
    \<and> (\<forall>x. x \<noteq> w \<longrightarrow> fibers h' x = fibers h x)
    \<and> (\<forall>x. alternate (fibers h' x) = alternate (fibers h x))
    \<and> (\<forall>x. updateQueue (fibers h' x)
             = updateQueue (fibers (snd (ensureWorkInProgressQueueIsAClone w queue h)) x))"
proof -
  let ?h0 = "h\<lparr>hasForceUpdate := False\<rparr>"
  let ?E = "ensureWorkInProgressQueueIsAClone w queue ?h0"
  let ?q = "workingQueue w queue h"
  let ?h1 = "snd ?E"
  let ?s = "afterLoops c w ?q p i r ?h1 ns cs"
  let ?h' = "finishProcessing c w ?q ?s"
  have q: "fst ?E = ?q" by (simp add: workingQueue_def)
  have E: "?E = (?q, ?h1)" using q by (metis prod.collapse)
  have u1: "updates ?h1 = updates h" by simp
  have nx: "nextOf ?h1 = nextOf h" using u1 by (rule nextOf_updates)
  have ins: "insufficient ?h1 = insufficient h" using u1 by (rule insufficient_updates)
  have sr: "sameRecords h ?h1" by (simp add: sameRecords_def)
  have st: "stateAfter c w ?q p i ?h1 us v = stateAfter c w queue p i h us v" for us v
    using sr by (rule stateAfter_cong)
  let ?h2 = "snd (ensureWorkInProgressQueueIsAClone w queue h)"
  have wc: "firstCapturedUpdate (queues ?h2 ?q) = workingCaptured w queue h"
    by (simp add: workingCaptured_def workingQueue_def)
  have fu: "firstUpdate (queues ?h2 ?q) = firstUpdate (queues h queue)"
    by (simp add: workingQueue_def)
  have bs: "baseState (queues ?h2 ?q) = baseState (queues h queue)"
    by (simp add: workingQueue_def)
  have lu: "lastUpdate (queues ?h2 ?q) = lastUpdate (queues h queue)"
    by (simp add: workingQueue_def)
  have run: "processUpdateQueue c w queue p i r h = Some ?h'"
    using E by (rule processUpdateQueue_eq) (simp_all add: nx fu wc ns cs)
  have sr': "sameRecords h ?h'"
    using sameRecords_trans [OF sr afterLoops_sameRecords [of ?h1 c w ?q p i r ns cs]]
    by (simp add: sameRecords_def)
  have hp: "heap ?s = heap ?s" ..
  have qo: "queues ?h' q' = queues h q'" if "q' \<noteq> ?q" for q'
  proof -
    have "queues ?h' q' = queues (heap ?s) q'" using that by (rule finishProcessing_queues)
    also have "\<dots> = queues ?h1 q'"
      using that by (rule afterLoops_queues)
    also have "\<dots> = queues h q'"
      using that ensure_queues_other [of q' w queue ?h0] by (simp add: workingQueue_def)
    finally show ?thesis .
  qed
  have fo: "fibers ?h' x = fibers h x" if "x \<noteq> w" for x
  proof -
    have "fibers ?h' x = fibers (heap ?s) x" using that by (rule finishProcessing_fibers)
    also have "\<dots> = fibers ?h1 x"
      using that by (rule afterLoops_fibers)
    also have "\<dots> = fibers h x"
      using that ensure_fibers [of x w queue ?h0] by simp
    finally show ?thesis .
  qed
  have c1: "processUpdateQueue c w queue p i r h = Some ?h'" by (rule run)
  have c2: "sameRecords h ?h'" by (rule sr')
  have c3: "called ?h' = called h" by simp
  have c4: "memoizedState (fibers ?h' w) =
       stateAfter c w queue p i h (filter (\<lambda>u. \<not> insufficient h r u) cs)
         (stateAfter c w queue p i h (filter (\<lambda>u. \<not> insufficient h r u) ns) (baseState (queues h queue)))"
      by (simp add: afterLoops_resultState ins st bs)
  have c5: "fiberExpirationTime (fibers ?h' w) =
       Max (insert (NoWork c)
              ((\<lambda>u. expirationTime (updates h u)) ` set (filter (insufficient h r) (ns @ cs))))"
      by (simp add: afterLoops_newExpirationTime ins)
  have c6: "firstUpdate (queues ?h' ?q) = find (insufficient h r) ns"
      by (simp add: afterLoops_newFirstUpdate ins)
  have c7: "firstCapturedUpdate (queues ?h' ?q) = find (insufficient h r) cs"
      by (simp add: afterLoops_newFirstCapturedUpdate ins)
  have c8: "baseState (queues ?h' ?q) =
       (if find (insufficient h r) ns \<noteq> None
        then stateAfter c w queue p i h (takeWhile (\<lambda>u. \<not> insufficient h r u) ns) (baseState (queues h queue))
        else if find (insufficient h r) cs \<noteq> None
        then stateAfter c w queue p i h (takeWhile (\<lambda>u. \<not> insufficient h r u) cs)
               (stateAfter c w queue p i h (filter (\<lambda>u. \<not> insufficient h r u) ns) (baseState (queues h queue)))
        else memoizedState (fibers ?h' w))"
      by (simp add: afterLoops_newFirstUpdate afterLoops_newFirstCapturedUpdate
            afterLoops_newBaseState afterLoops_resultState ins st bs)
  have c9: "lastUpdate (queues ?h' ?q) =
       (if find (insufficient h r) ns = None then None else lastUpdate (queues h queue))"
      by (simp add: afterLoops_newFirstUpdate ins lu)
  have c10: "find (insufficient h r) cs = None \<longrightarrow> lastCapturedUpdate (queues ?h' ?q) = None"
      by (simp add: afterLoops_newFirstCapturedUpdate ins)
  have c11: "\<forall>q'. q' \<noteq> ?q \<longrightarrow> queues ?h' q' = queues h q'" using qo by blast
  have c12: "\<forall>x. x \<noteq> w \<longrightarrow> fibers ?h' x = fibers h x" using fo by blast
  have c13: "\<forall>x. alternate (fibers ?h' x) = alternate (fibers h x)"
      by simp
    have c14: "\<forall>x. updateQueue (fibers ?h' x)
             = updateQueue (fibers (snd (ensureWorkInProgressQueueIsAClone w queue h)) x)"
    by simp
  show ?thesis
    by (intro exI [of _ ?h'] conjI c1 c2 c3 c4 c5 c6 c7 c8 c9 c10 c11 c12 c13 c14)
qed

lemma chain_upd_other: "x \<notin> set xs \<Longrightarrow> chain (nx(x := v)) p xs = chain nx p xs"
  by (induction xs arbitrary: p) auto

lemma chain_snoc':
  assumes "chain nx p (xs @ [t])" and "u \<notin> set (xs @ [t])" and "nx u = None"
  shows "chain (nx(t := Some u)) p (xs @ [t, u])"
  using assms
proof (induction xs arbitrary: p)
  case Nil
  then show ?case by auto
next
  case (Cons x xs)
  from Cons.prems(1) have p: "p = Some x" and c: "chain nx (nx x) (xs @ [t])" by simp_all
  from c have "x \<notin> set (xs @ [t])" by (rule chain_not_in_tail)
  then have "x \<noteq> t" by simp
  moreover have "chain (nx(t := Some u)) (nx x) (xs @ [t, u])"
    using c Cons.prems(2,3) by (intro Cons.IH) simp_all
  moreover have "(nx(t := Some u)) x = nx x" using \<open>x \<noteq> t\<close> by simp
  ultimately show ?case unfolding p append_Cons chain.simps by simp
qed

lemma effectList_append:
  assumes e: "effectList h first lst es" and u: "u \<notin> set es"
  shows "case lst of
           None \<Rightarrow> effectList (setUpdate u (\<lambda>U. U\<lparr>nextEffect := None\<rparr>) h) (Some u) (Some u) (es @ [u])
         | Some l \<Rightarrow>
             effectList (setUpdate l (\<lambda>U. U\<lparr>nextEffect := Some u\<rparr>)
                           (setUpdate u (\<lambda>U. U\<lparr>nextEffect := None\<rparr>) h))
               first (Some u) (es @ [u])"
proof (cases lst)
  case None
  then have "es = []" using e by (simp add: effectList_def split: if_splits)
  then show ?thesis using None by (simp add: effectList_def nextEffectOf_def)
next
  case (Some l)
  then have ne: "es \<noteq> []" and l: "l = last es"
    using e by (auto simp add: effectList_def split: if_splits)
  let ?nx = "(nextEffectOf h)(u := None)"
  have es: "es = butlast es @ [l]" using ne l by simp
  have "chain (nextEffectOf h) first es" using e by (simp add: effectList_def)
  then have "chain ?nx first es" using u by (simp add: chain_upd_other)
  then have "chain ?nx first (butlast es @ [l])" using es by simp
  moreover have "u \<notin> set (butlast es @ [l])" using u es by simp
  moreover have "?nx u = None" by simp
  ultimately have "chain (?nx(l := Some u)) first (butlast es @ [l, u])"
    by (rule chain_snoc')
  moreover have "butlast es @ [l, u] = es @ [u]" using es by (metis append.assoc append_Cons append_Nil)
  moreover have "nextEffectOf (setUpdate l (\<lambda>U. U\<lparr>nextEffect := Some u\<rparr>)
                           (setUpdate u (\<lambda>U. U\<lparr>nextEffect := None\<rparr>) h)) = ?nx(l := Some u)"
    by (rule ext) (simp add: nextEffectOf_def)
  ultimately show ?thesis using Some by (simp add: effectList_def)
qed

lemma effectList_frame:
  assumes "effectList h first lst es"
    and "\<forall>x \<in> set es. nextEffect (updates h' x) = nextEffect (updates h x)"
  shows "effectList h' first lst es"
proof -
  have "chain (nextEffectOf h') p xs = chain (nextEffectOf h) p xs"
    if "\<forall>x \<in> set xs. nextEffect (updates h' x) = nextEffect (updates h x)" for p xs
    using that by (induction xs arbitrary: p) (simp_all add: nextEffectOf_def)
  then show ?thesis using assms by (simp add: effectList_def)
qed

lemma getStateFromUpdate_nextEffect [simp]:
  "nextEffect (updates (snd (getStateFromUpdate c w q u st p i h)) x) = nextEffect (updates h x)"
  by simp

lemma applyUpdate_nextEffect:
  "nextEffect (updates (heap (applyUpdate c w q p i u s)) x) =
     (if x = u \<and> callback (updates (heap s) u) \<noteq> CallbackValue JSNull then None
      else nextEffect (updates (heap s) x))"
  by (simp add: applyUpdate_def Let_def case_prod_beta)

lemma processUpdate_heap:
  "heap (processUpdate c w q p i r u s) =
     (if expirationTime (updates (heap s) u) < r then heap s
      else if callback (updates (heap s) u) \<noteq> CallbackValue JSNull then
        (case lastEffect (queues (heap s) q) of
           None \<Rightarrow> setQueue q (\<lambda>Q. Q\<lparr>firstEffect := Some u, lastEffect := Some u\<rparr>)
                     (heap (applyUpdate c w q p i u s))
         | Some l \<Rightarrow> setQueue q (\<lambda>Q. Q\<lparr>lastEffect := Some u\<rparr>)
                       (setUpdate l (\<lambda>U. U\<lparr>nextEffect := Some u\<rparr>)
                          (heap (applyUpdate c w q p i u s))))
      else heap (applyUpdate c w q p i u s))"
  by (simp add: processUpdate_def Let_def split: option.split)

lemma effectList_updates: "updates h1 = updates h2 \<Longrightarrow> effectList h1 f l xs = effectList h2 f l xs"
  by (simp add: effectList_def nextEffectOf_def [abs_def])

lemma processUpdate_effects:
  assumes e: "effectList (heap s) (firstEffect (queues (heap s) q)) (lastEffect (queues (heap s) q)) es"
    and u: "u \<notin> set es"
  shows "effectList (heap (processUpdate c w q p i r u s))
           (firstEffect (queues (heap (processUpdate c w q p i r u s)) q))
           (lastEffect (queues (heap (processUpdate c w q p i r u s)) q))
           (es @ appliedWithCallback (heap s) r [u])"
proof -
  let ?a = "applyUpdate c w q p i u s"
  let ?h0 = "setUpdate u (\<lambda>U. U\<lparr>nextEffect := None\<rparr>) (heap s)"
  consider (skip) "expirationTime (updates (heap s) u) < r"
    | (plain) "\<not> expirationTime (updates (heap s) u) < r"
        "callback (updates (heap s) u) = CallbackValue JSNull"
    | (effect) "\<not> expirationTime (updates (heap s) u) < r"
        "callback (updates (heap s) u) \<noteq> CallbackValue JSNull"
    by blast
  then show ?thesis
  proof cases
    case skip
    then have "heap (processUpdate c w q p i r u s) = heap s"
      by (simp add: processUpdate_heap)
    moreover have "appliedWithCallback (heap s) r [u] = []"
      using skip by (simp add: appliedWithCallback_def insufficient_def)
    ultimately show ?thesis using e by simp
  next
    case plain
    then have h: "heap (processUpdate c w q p i r u s) = heap ?a"
      by (simp add: processUpdate_heap)
    have ua: "updates (heap ?a) = updates (heap s)"
      using plain by (simp add: applyUpdate_def Let_def case_prod_beta)
    have "effectList (heap ?a) (firstEffect (queues (heap s) q))
                 (lastEffect (queues (heap s) q)) es"
      using e by (simp only: effectList_updates [OF ua])
    moreover have "appliedWithCallback (heap s) r [u] = []"
      using plain by (simp add: appliedWithCallback_def)
    ultimately show ?thesis unfolding h by simp
  next
    case effect
    have ap: "appliedWithCallback (heap s) r [u] = [u]"
      using effect by (simp add: appliedWithCallback_def insufficient_def)
    have ua: "updates (heap ?a) = updates ?h0"
      using effect by (simp add: applyUpdate_def Let_def case_prod_beta)
    show ?thesis
    proof (cases "lastEffect (queues (heap s) q)")
      case None
      have h: "heap (processUpdate c w q p i r u s)
                 = setQueue q (\<lambda>Q. Q\<lparr>firstEffect := Some u, lastEffect := Some u\<rparr>) (heap ?a)"
        using effect None by (simp add: processUpdate_heap)
      have "effectList ?h0 (Some u) (Some u) (es @ [u])"
        using effectList_append [OF e u] None by simp
      then have "effectList (setQueue q (\<lambda>Q. Q\<lparr>firstEffect := Some u, lastEffect := Some u\<rparr>) (heap ?a))
                   (Some u) (Some u) (es @ [u])"
        by (subst effectList_updates [where ?h2.0 = ?h0]) (simp_all add: ua)
      then show ?thesis unfolding h ap by simp
    next
      case (Some l)
      let ?h1 = "setUpdate l (\<lambda>U. U\<lparr>nextEffect := Some u\<rparr>) ?h0"
      have h: "heap (processUpdate c w q p i r u s)
                 = setQueue q (\<lambda>Q. Q\<lparr>lastEffect := Some u\<rparr>)
                     (setUpdate l (\<lambda>U. U\<lparr>nextEffect := Some u\<rparr>) (heap ?a))"
        using effect Some by (simp add: processUpdate_heap)
      have "effectList ?h1 (firstEffect (queues (heap s) q)) (Some u) (es @ [u])"
        using effectList_append [OF e u] Some by simp
      then have "effectList (setQueue q (\<lambda>Q. Q\<lparr>lastEffect := Some u\<rparr>)
                               (setUpdate l (\<lambda>U. U\<lparr>nextEffect := Some u\<rparr>) (heap ?a)))
                   (firstEffect (queues (heap s) q)) (Some u) (es @ [u])"
        by (subst effectList_updates [where ?h2.0 = ?h1]) (simp_all add: ua)
      then show ?thesis unfolding h ap by simp
    qed
  qed
qed

lemma processCapturedUpdate_heap:
  "heap (processCapturedUpdate c w q p i r u s) =
     (if expirationTime (updates (heap s) u) < r then heap s
      else if callback (updates (heap s) u) \<noteq> CallbackValue JSNull then
        (case lastCapturedEffect (queues (heap s) q) of
           None \<Rightarrow> setQueue q (\<lambda>Q. Q\<lparr>firstCapturedEffect := Some u, lastCapturedEffect := Some u\<rparr>)
                     (heap (applyUpdate c w q p i u s))
         | Some l \<Rightarrow> setQueue q (\<lambda>Q. Q\<lparr>lastCapturedEffect := Some u\<rparr>)
                       (setUpdate l (\<lambda>U. U\<lparr>nextEffect := Some u\<rparr>)
                          (heap (applyUpdate c w q p i u s))))
      else heap (applyUpdate c w q p i u s))"
  by (simp add: processCapturedUpdate_def Let_def split: option.split)

lemma processCapturedUpdate_effects:
  assumes e: "effectList (heap s) (firstCapturedEffect (queues (heap s) q))
                (lastCapturedEffect (queues (heap s) q)) es"
    and u: "u \<notin> set es"
  shows "effectList (heap (processCapturedUpdate c w q p i r u s))
           (firstCapturedEffect (queues (heap (processCapturedUpdate c w q p i r u s)) q))
           (lastCapturedEffect (queues (heap (processCapturedUpdate c w q p i r u s)) q))
           (es @ appliedWithCallback (heap s) r [u])"
proof -
  let ?a = "applyUpdate c w q p i u s"
  let ?h0 = "setUpdate u (\<lambda>U. U\<lparr>nextEffect := None\<rparr>) (heap s)"
  consider (skip) "expirationTime (updates (heap s) u) < r"
    | (plain) "\<not> expirationTime (updates (heap s) u) < r"
        "callback (updates (heap s) u) = CallbackValue JSNull"
    | (effect) "\<not> expirationTime (updates (heap s) u) < r"
        "callback (updates (heap s) u) \<noteq> CallbackValue JSNull"
    by blast
  then show ?thesis
  proof cases
    case skip
    then have "heap (processCapturedUpdate c w q p i r u s) = heap s"
      by (simp add: processCapturedUpdate_heap)
    moreover have "appliedWithCallback (heap s) r [u] = []"
      using skip by (simp add: appliedWithCallback_def insufficient_def)
    ultimately show ?thesis using e by simp
  next
    case plain
    then have h: "heap (processCapturedUpdate c w q p i r u s) = heap ?a"
      by (simp add: processCapturedUpdate_heap)
    have ua: "updates (heap ?a) = updates (heap s)"
      using plain by (simp add: applyUpdate_def Let_def case_prod_beta)
    have "effectList (heap ?a) (firstCapturedEffect (queues (heap s) q))
                 (lastCapturedEffect (queues (heap s) q)) es"
      using e by (simp only: effectList_updates [OF ua])
    moreover have "appliedWithCallback (heap s) r [u] = []"
      using plain by (simp add: appliedWithCallback_def)
    ultimately show ?thesis unfolding h by simp
  next
    case effect
    have ap: "appliedWithCallback (heap s) r [u] = [u]"
      using effect by (simp add: appliedWithCallback_def insufficient_def)
    have ua: "updates (heap ?a) = updates ?h0"
      using effect by (simp add: applyUpdate_def Let_def case_prod_beta)
    show ?thesis
    proof (cases "lastCapturedEffect (queues (heap s) q)")
      case None
      have h: "heap (processCapturedUpdate c w q p i r u s)
                 = setQueue q (\<lambda>Q. Q\<lparr>firstCapturedEffect := Some u, lastCapturedEffect := Some u\<rparr>)
                     (heap ?a)"
        using effect None by (simp add: processCapturedUpdate_heap)
      have "effectList ?h0 (Some u) (Some u) (es @ [u])"
        using effectList_append [OF e u] None by simp
      then have "effectList (setQueue q (\<lambda>Q. Q\<lparr>firstCapturedEffect := Some u, lastCapturedEffect := Some u\<rparr>)
                               (heap ?a))
                   (Some u) (Some u) (es @ [u])"
        by (subst effectList_updates [where ?h2.0 = ?h0]) (simp_all add: ua)
      then show ?thesis unfolding h ap by simp
    next
      case (Some l)
      let ?h1 = "setUpdate l (\<lambda>U. U\<lparr>nextEffect := Some u\<rparr>) ?h0"
      have h: "heap (processCapturedUpdate c w q p i r u s)
                 = setQueue q (\<lambda>Q. Q\<lparr>lastCapturedEffect := Some u\<rparr>)
                     (setUpdate l (\<lambda>U. U\<lparr>nextEffect := Some u\<rparr>) (heap ?a))"
        using effect Some by (simp add: processCapturedUpdate_heap)
      have "effectList ?h1 (firstCapturedEffect (queues (heap s) q)) (Some u) (es @ [u])"
        using effectList_append [OF e u] Some by simp
      then have "effectList (setQueue q (\<lambda>Q. Q\<lparr>lastCapturedEffect := Some u\<rparr>)
                               (setUpdate l (\<lambda>U. U\<lparr>nextEffect := Some u\<rparr>) (heap ?a)))
                   (firstCapturedEffect (queues (heap s) q)) (Some u) (es @ [u])"
        by (subst effectList_updates [where ?h2.0 = ?h1]) (simp_all add: ua)
      then show ?thesis unfolding h ap by simp
    qed
  qed
qed

lemma processCapturedUpdate_nextEffect_other:
  assumes "x \<noteq> u" and "lastCapturedEffect (queues (heap s) q) \<noteq> Some x"
  shows "nextEffect (updates (heap (processCapturedUpdate c w q p i r u s)) x)
           = nextEffect (updates (heap s) x)"
  using assms
  by (auto simp add: processCapturedUpdate_heap applyUpdate_nextEffect split: option.split)

lemma appliedWithCallback_cong:
  "sameRecords h h' \<Longrightarrow> appliedWithCallback h' r xs = appliedWithCallback h r xs"
  by (simp add: appliedWithCallback_def insufficient_def sameRecords_fields)

lemma appliedWithCallback_Cons:
  "appliedWithCallback h r (x # xs) = appliedWithCallback h r [x] @ appliedWithCallback h r xs"
  by (simp add: appliedWithCallback_def)

lemma appliedWithCallback_subset: "set (appliedWithCallback h r xs) \<subseteq> set xs"
  by (auto simp add: appliedWithCallback_def)

lemma fold_processUpdate_effects:
  assumes "sameRecords h (heap s)"
    and "effectList (heap s) (firstEffect (queues (heap s) q)) (lastEffect (queues (heap s) q)) es"
    and "distinct xs" and "set es \<inter> set xs = {}"
  shows "effectList (heap (fold (processUpdate c w q p i r) xs s))
           (firstEffect (queues (heap (fold (processUpdate c w q p i r) xs s)) q))
           (lastEffect (queues (heap (fold (processUpdate c w q p i r) xs s)) q))
           (es @ appliedWithCallback h r xs)"
  using assms
proof (induction xs arbitrary: s es)
  case Nil
  then show ?case by (simp add: appliedWithCallback_def)
next
  case (Cons x xs)
  let ?s = "processUpdate c w q p i r x s"
  let ?es = "es @ appliedWithCallback h r [x]"
  have x: "x \<notin> set es" using Cons.prems(4) by auto
  have sr': "sameRecords h (heap ?s)"
    using Cons.prems(1) by (rule sameRecords_trans [OF _ processUpdate_sameRecords])
  have "effectList (heap ?s) (firstEffect (queues (heap ?s) q)) (lastEffect (queues (heap ?s) q))
          (es @ appliedWithCallback (heap s) r [x])"
    using Cons.prems(2) x by (rule processUpdate_effects)
  then have e: "effectList (heap ?s) (firstEffect (queues (heap ?s) q))
                  (lastEffect (queues (heap ?s) q)) ?es"
    by (simp only: appliedWithCallback_cong [OF Cons.prems(1)])
  have d: "distinct xs" using Cons.prems(3) by simp
  have "set (appliedWithCallback h r [x]) \<subseteq> {x}"
    using appliedWithCallback_subset [of h r "[x]"] by simp
  then have i: "set ?es \<inter> set xs = {}" using Cons.prems(3,4) by auto
  have "effectList (heap (fold (processUpdate c w q p i r) xs ?s))
           (firstEffect (queues (heap (fold (processUpdate c w q p i r) xs ?s)) q))
           (lastEffect (queues (heap (fold (processUpdate c w q p i r) xs ?s)) q))
           (?es @ appliedWithCallback h r xs)"
    using sr' e d i by (rule Cons.IH)
  then show ?case
    by (simp add: appliedWithCallback_Cons [of h r x xs])
qed

lemma effectList_last_in:
  "effectList h f l es \<Longrightarrow> l = Some x \<Longrightarrow> x \<in> set es"
  by (auto simp add: effectList_def split: if_splits)

lemma fold_processCapturedUpdate_effects:
  assumes "sameRecords h (heap s)"
    and "effectList (heap s) (firstCapturedEffect (queues (heap s) q))
           (lastCapturedEffect (queues (heap s) q)) es"
    and "distinct xs" and "set es \<inter> set xs = {}"
    and "effectList (heap s) (firstEffect (queues (heap s) q)) (lastEffect (queues (heap s) q)) ns"
    and "set ns \<inter> set xs = {}" and "set ns \<inter> set es = {}"
  shows "effectList (heap (fold (processCapturedUpdate c w q p i r) xs s))
           (firstCapturedEffect (queues (heap (fold (processCapturedUpdate c w q p i r) xs s)) q))
           (lastCapturedEffect (queues (heap (fold (processCapturedUpdate c w q p i r) xs s)) q))
           (es @ appliedWithCallback h r xs)
       \<and> effectList (heap (fold (processCapturedUpdate c w q p i r) xs s))
           (firstEffect (queues (heap (fold (processCapturedUpdate c w q p i r) xs s)) q))
           (lastEffect (queues (heap (fold (processCapturedUpdate c w q p i r) xs s)) q)) ns"
  using assms
proof (induction xs arbitrary: s es)
  case Nil
  then show ?case by (simp add: appliedWithCallback_def)
next
  case (Cons x xs)
  let ?s = "processCapturedUpdate c w q p i r x s"
  let ?es = "es @ appliedWithCallback h r [x]"
  have x: "x \<notin> set es" using Cons.prems(4) by auto
  have sr': "sameRecords h (heap ?s)"
    using Cons.prems(1) by (rule sameRecords_trans [OF _ processCapturedUpdate_sameRecords])
  have "effectList (heap ?s) (firstCapturedEffect (queues (heap ?s) q))
          (lastCapturedEffect (queues (heap ?s) q)) (es @ appliedWithCallback (heap s) r [x])"
    using Cons.prems(2) x by (rule processCapturedUpdate_effects)
  then have e: "effectList (heap ?s) (firstCapturedEffect (queues (heap ?s) q))
                  (lastCapturedEffect (queues (heap ?s) q)) ?es"
    by (simp only: appliedWithCallback_cong [OF Cons.prems(1)])
  have d: "distinct xs" using Cons.prems(3) by simp
  have sub: "set (appliedWithCallback h r [x]) \<subseteq> {x}"
    using appliedWithCallback_subset [of h r "[x]"] by simp
  then have i: "set ?es \<inter> set xs = {}" using Cons.prems(3,4) by auto
  have "nextEffect (updates (heap ?s) y) = nextEffect (updates (heap s) y)" if "y \<in> set ns" for y
  proof (rule processCapturedUpdate_nextEffect_other)
    show "y \<noteq> x" using that Cons.prems(6) by auto
    show "lastCapturedEffect (queues (heap s) q) \<noteq> Some y"
    proof
      assume "lastCapturedEffect (queues (heap s) q) = Some y"
      with Cons.prems(2) have "y \<in> set es" by (rule effectList_last_in)
      with that Cons.prems(7) show False by auto
    qed
  qed
  then have "\<forall>y \<in> set ns. nextEffect (updates (heap ?s) y) = nextEffect (updates (heap s) y)"
    by blast
  with Cons.prems(5)
  have "effectList (heap ?s) (firstEffect (queues (heap s) q)) (lastEffect (queues (heap s) q)) ns"
    by (rule effectList_frame)
  then have n: "effectList (heap ?s) (firstEffect (queues (heap ?s) q))
                  (lastEffect (queues (heap ?s) q)) ns"
    by simp
  have j: "set ns \<inter> set xs = {}" using Cons.prems(6) by auto
  have k: "set ns \<inter> set ?es = {}" using Cons.prems(6,7) sub by auto
  have "effectList (heap (fold (processCapturedUpdate c w q p i r) xs ?s))
           (firstCapturedEffect (queues (heap (fold (processCapturedUpdate c w q p i r) xs ?s)) q))
           (lastCapturedEffect (queues (heap (fold (processCapturedUpdate c w q p i r) xs ?s)) q))
           (?es @ appliedWithCallback h r xs)
       \<and> effectList (heap (fold (processCapturedUpdate c w q p i r) xs ?s))
           (firstEffect (queues (heap (fold (processCapturedUpdate c w q p i r) xs ?s)) q))
           (lastEffect (queues (heap (fold (processCapturedUpdate c w q p i r) xs ?s)) q)) ns"
    using sr' e d i n j k by (rule Cons.IH)
  then show ?case
    by (simp add: appliedWithCallback_Cons [of h r x xs])
qed

lemma afterLoops_effects:
  assumes ns: "chain (nextOf h1) (firstUpdate (queues h1 q)) ns"
    and cs: "chain (nextOf h1) (firstCapturedUpdate (queues h1 q)) cs"
    and dj: "set ns \<inter> set cs = {}"
    and e1: "firstEffect (queues h1 q) = None" "lastEffect (queues h1 q) = None"
    and e2: "firstCapturedEffect (queues h1 q) = None" "lastCapturedEffect (queues h1 q) = None"
  shows "effectList (heap (afterLoops c w q p i r h1 ns cs))
           (firstEffect (queues (heap (afterLoops c w q p i r h1 ns cs)) q))
           (lastEffect (queues (heap (afterLoops c w q p i r h1 ns cs)) q))
           (appliedWithCallback h1 r ns)
       \<and> effectList (heap (afterLoops c w q p i r h1 ns cs))
           (firstCapturedEffect (queues (heap (afterLoops c w q p i r h1 ns cs)) q))
           (lastCapturedEffect (queues (heap (afterLoops c w q p i r h1 ns cs)) q))
           (appliedWithCallback h1 r cs)"
proof -
  let ?s1 = "fold (processUpdate c w q p i r) ns (startState c q h1)"
  let ?s1' = "?s1\<lparr>update := firstCapturedUpdate (queues h1 q)\<rparr>"
  have dn: "distinct ns" using ns by (rule chain_distinct)
  have dc: "distinct cs" using cs by (rule chain_distinct)
  have s0: "effectList (heap (startState c q h1)) (firstEffect (queues (heap (startState c q h1)) q))
              (lastEffect (queues (heap (startState c q h1)) q)) []"
    using e1 by (simp add: effectList_def)
  have n1: "effectList (heap ?s1) (firstEffect (queues (heap ?s1) q)) (lastEffect (queues (heap ?s1) q))
              ([] @ appliedWithCallback h1 r ns)"
    by (rule fold_processUpdate_effects [OF _ s0 dn]) simp_all
  have sr: "sameRecords h1 (heap ?s1')"
    by (simp add: fold_processUpdate_sameRecords)
  have c0: "effectList (heap ?s1') (firstCapturedEffect (queues (heap ?s1') q))
              (lastCapturedEffect (queues (heap ?s1') q)) []"
    using e2 by (simp add: effectList_def)
  have n1': "effectList (heap ?s1') (firstEffect (queues (heap ?s1') q))
               (lastEffect (queues (heap ?s1') q)) (appliedWithCallback h1 r ns)"
    using n1 by simp
  have j: "set (appliedWithCallback h1 r ns) \<inter> set cs = {}"
    using dj appliedWithCallback_subset [of h1 r ns] by auto
  have "effectList (heap (fold (processCapturedUpdate c w q p i r) cs ?s1'))
           (firstCapturedEffect (queues (heap (fold (processCapturedUpdate c w q p i r) cs ?s1')) q))
           (lastCapturedEffect (queues (heap (fold (processCapturedUpdate c w q p i r) cs ?s1')) q))
           ([] @ appliedWithCallback h1 r cs)
       \<and> effectList (heap (fold (processCapturedUpdate c w q p i r) cs ?s1'))
           (firstEffect (queues (heap (fold (processCapturedUpdate c w q p i r) cs ?s1')) q))
           (lastEffect (queues (heap (fold (processCapturedUpdate c w q p i r) cs ?s1')) q))
           (appliedWithCallback h1 r ns)"
    by (rule fold_processCapturedUpdate_effects [OF sr c0 dc _ n1' j]) simp_all
  then show ?thesis by (simp add: afterLoops_def)
qed

lemma outcomeHeap_simps [simp]:
  "outcomeHeap (Inl (e, h)) = h" "outcomeHeap (Inr h) = h"
  by (simp_all add: outcomeHeap_def)

lemma callCallback_cases:
  "callCallback cb inst h =
     (if callable cb then Inr (h\<lparr>called := called h @ [(case cb of CallbackFunction f \<Rightarrow> f, inst)]\<rparr>)
      else Inl (Invariant ''Invalid argument passed as callback. Expected a function.'' cb, h))"
  by (cases cb) (simp_all add: callCallback_def callable_def)

lemma nextEffectOf_updates:
  "(\<forall>x. nextEffect (updates h' x) = nextEffect (updates h x)) \<Longrightarrow> nextEffectOf h' = nextEffectOf h"
  by (rule ext) (simp add: nextEffectOf_def)

lemma commitUpdateEffects_list:
  "chain (nextEffectOf h) e es \<Longrightarrow>
   commitUpdateEffects e inst h = Some (commitEffectList es inst h)"
proof (induction es arbitrary: e h)
  case Nil
  then show ?case by (subst commitUpdateEffects.simps) simp
next
  case (Cons x es)
  from Cons.prems have e: "e = Some x" and c: "chain (nextEffectOf h) (nextEffectOf h x) es"
    by simp_all
  have nx: "nextEffectOf h x = nextEffect (updates h x)" by (simp add: nextEffectOf_def)
  show ?case
  proof (cases "callback (updates h x) = CallbackValue JSNull")
    case True
    have "commitUpdateEffects (nextEffect (updates h x)) inst h = Some (commitEffectList es inst h)"
      using c unfolding nx by (rule Cons.IH)
    then show ?thesis using True e by (subst commitUpdateEffects.simps) simp
  next
    case False
    let ?h0 = "setUpdate x (\<lambda>U. U\<lparr>callback := CallbackValue JSNull\<rparr>) h"
    show ?thesis
    proof (cases "callable (callback (updates h x))")
      case True
      let ?h1 = "?h0\<lparr>called := called ?h0 @ [(case callback (updates h x) of CallbackFunction f \<Rightarrow> f, inst)]\<rparr>"
      have cc: "callCallback (callback (updates h x)) inst ?h0 = Inr ?h1"
        using True by (simp add: callCallback_cases)
      have "nextEffectOf ?h1 = nextEffectOf h"
        by (rule nextEffectOf_updates) simp
      moreover have "nextEffect (updates ?h1 x) = nextEffect (updates h x)" by simp
      ultimately have "chain (nextEffectOf ?h1) (nextEffect (updates ?h1 x)) es"
        using c unfolding nx by simp
      then have "commitUpdateEffects (nextEffect (updates ?h1 x)) inst ?h1
                   = Some (commitEffectList es inst ?h1)"
        by (rule Cons.IH)
      then show ?thesis using False e cc by (subst commitUpdateEffects.simps) simp
    next
      case nc: False
      have cc: "callCallback (callback (updates h x)) inst ?h0
                  = Inl (Invariant ''Invalid argument passed as callback. Expected a function.''
                           (callback (updates h x)), ?h0)"
        using nc by (simp add: callCallback_cases)
      show ?thesis using False e cc by (subst commitUpdateEffects.simps) simp
    qed
  qed
qed

lemma sameLinks_refl [simp]: "sameLinks h h"
  by (simp add: sameLinks_def)

lemma sameLinks_trans: "sameLinks h h1 \<Longrightarrow> sameLinks h1 h2 \<Longrightarrow> sameLinks h h2"
  by (simp add: sameLinks_def)

lemma commitEffectList_frame:
  "queues (outcomeHeap (commitEffectList es inst h)) = queues h
   \<and> fibers (outcomeHeap (commitEffectList es inst h)) = fibers h
   \<and> queueCount (outcomeHeap (commitEffectList es inst h)) = queueCount h
   \<and> sameLinks h (outcomeHeap (commitEffectList es inst h))
   \<and> (\<forall>y. y \<notin> set es \<longrightarrow>
          callback (updates (outcomeHeap (commitEffectList es inst h)) y) = callback (updates h y))"
proof (induction es arbitrary: h)
  case Nil
  then show ?case by simp
next
  case (Cons x es)
  let ?h0 = "setUpdate x (\<lambda>U. U\<lparr>callback := CallbackValue JSNull\<rparr>) h"
  let ?h1 = "?h0\<lparr>called := called ?h0 @ [(case callback (updates h x) of CallbackFunction f \<Rightarrow> f, inst)]\<rparr>"
  have l: "sameLinks h ?h1" "sameLinks h ?h0" by (simp_all add: sameLinks_def)
  have q: "queues ?h1 = queues h" "fibers ?h1 = fibers h" "queueCount ?h1 = queueCount h"
    by simp_all
  have cb: "y \<noteq> x \<Longrightarrow> callback (updates ?h1 y) = callback (updates h y)" for y by simp
  consider (null) "callback (updates h x) = CallbackValue JSNull"
    | (bad) "callback (updates h x) \<noteq> CallbackValue JSNull" "\<not> callable (callback (updates h x))"
    | (good) "callback (updates h x) \<noteq> CallbackValue JSNull" "callable (callback (updates h x))"
    by blast
  then show ?case
  proof cases
    case null
    then have "commitEffectList (x # es) inst h = commitEffectList es inst h" by simp
    then show ?thesis using Cons.IH [of h] by simp
  next
    case bad
    then have "commitEffectList (x # es) inst h
                 = Inl (Invariant ''Invalid argument passed as callback. Expected a function.''
                          (callback (updates h x)), ?h0)"
      by (simp add: callCallback_cases)
    then show ?thesis using l(2) by simp
  next
    case good
    then have "commitEffectList (x # es) inst h = commitEffectList es inst ?h1"
      by (simp add: callCallback_cases)
    then show ?thesis
      using Cons.IH [of ?h1] q cb sameLinks_trans [OF l(1)] by simp
  qed
qed

lemma invocations_simps [simp]:
  "invocations h inst [] = []"
  "invocations h inst (x # xs) =
     (case callback (updates h x) of CallbackFunction f \<Rightarrow> [(f, inst)] | CallbackValue v \<Rightarrow> [])
       @ invocations h inst xs"
  by (simp_all add: invocations_def)


lemma invocations_cong:
  "\<forall>x \<in> set xs. callback (updates h' x) = callback (updates h x) \<Longrightarrow>
   invocations h' inst xs = invocations h inst xs"
  by (induction xs) simp_all



lemma joinCapturedUpdates_simps [simp]:
  "called (joinCapturedUpdates q h) = called h"
  "fibers (joinCapturedUpdates q h) = fibers h"
  "queueCount (joinCapturedUpdates q h) = queueCount h"
  "nextEffect (updates (joinCapturedUpdates q h) x) = nextEffect (updates h x)"
  "callback (updates (joinCapturedUpdates q h) x) = callback (updates h x)"
  "firstEffect (queues (joinCapturedUpdates q h) q') = firstEffect (queues h q')"
  "lastEffect (queues (joinCapturedUpdates q h) q') = lastEffect (queues h q')"
  "firstCapturedEffect (queues (joinCapturedUpdates q h) q') = firstCapturedEffect (queues h q')"
  "lastCapturedEffect (queues (joinCapturedUpdates q h) q') = lastCapturedEffect (queues h q')"
  "baseState (queues (joinCapturedUpdates q h) q') = baseState (queues h q')"
  "firstUpdate (queues (joinCapturedUpdates q h) q') = firstUpdate (queues h q')"
  by (simp_all add: joinCapturedUpdates_def Let_def split: option.split)

lemma commitUpdateQueue_eq:
  assumes e1: "chain (nextEffectOf h) (firstEffect (queues h q)) es"
    and e2: "chain (nextEffectOf h) (firstCapturedEffect (queues h q)) ces"
  shows "commitUpdateQueue fw q inst r h = Some (commitOutcome q inst es ces h)"
proof -
  let ?hs = "joinCapturedUpdates q h"
  have n: "nextEffectOf ?hs = nextEffectOf h" by (rule nextEffectOf_updates) simp
  have 1: "commitUpdateEffects (firstEffect (queues ?hs q)) inst ?hs
             = Some (commitEffectList es inst ?hs)"
    using e1 by (intro commitUpdateEffects_list) (simp add: n)
  show ?thesis
  proof (cases "commitEffectList es inst ?hs")
    case (Inl err)
    then show ?thesis using 1 by (simp add: commitUpdateQueue_def commitOutcome_def)
  next
    case (Inr h2)
    let ?h3 = "setQueue q (\<lambda>Q. Q\<lparr>firstEffect := None, lastEffect := None\<rparr>) h2"
    have fr: "queues h2 = queues ?hs" "sameLinks ?hs h2"
      using commitEffectList_frame [of es inst ?hs] by (simp_all add: Inr)
    have "nextEffectOf ?h3 = nextEffectOf h"
      using fr(2) by (intro nextEffectOf_updates) (simp add: sameLinks_def)
    moreover have "firstCapturedEffect (queues ?h3 q) = firstCapturedEffect (queues h q)"
      using fr(1) by simp
    ultimately have "chain (nextEffectOf ?h3) (firstCapturedEffect (queues ?h3 q)) ces"
      using e2 by simp
    then have 2: "commitUpdateEffects (firstCapturedEffect (queues ?h3 q)) inst ?h3
                    = Some (commitEffectList ces inst ?h3)"
      by (rule commitUpdateEffects_list)
    show ?thesis
      using 1 2 Inr
      by (cases "commitEffectList ces inst ?h3")
         (simp_all add: commitUpdateQueue_def commitOutcome_def Let_def)
  qed
qed


lemma invocations_callbacks:
  "\<forall>x \<in> set xs. callback (updates h' x) = callback (updates h x) \<Longrightarrow>
   invocations h' inst xs = invocations h inst xs"
  by (rule invocations_cong)



lemma ensure_effect_fields:
  assumes "firstEffect (queues h q0) = None" "lastEffect (queues h q0) = None"
    "firstCapturedEffect (queues h q0) = None" "lastCapturedEffect (queues h q0) = None"
  shows "firstEffect (queues (snd (ensureWorkInProgressQueueIsAClone w q0 h))
                        (fst (ensureWorkInProgressQueueIsAClone w q0 h))) = None"
    "lastEffect (queues (snd (ensureWorkInProgressQueueIsAClone w q0 h))
                        (fst (ensureWorkInProgressQueueIsAClone w q0 h))) = None"
    "firstCapturedEffect (queues (snd (ensureWorkInProgressQueueIsAClone w q0 h))
                        (fst (ensureWorkInProgressQueueIsAClone w q0 h))) = None"
    "lastCapturedEffect (queues (snd (ensureWorkInProgressQueueIsAClone w q0 h))
                        (fst (ensureWorkInProgressQueueIsAClone w q0 h))) = None"
  using assms
  by (simp_all add: ensureWorkInProgressQueueIsAClone_def case_prod_beta cloneUpdateQueue_def
        split: option.split)

lemma ensure_effect_fields_clone:
  assumes "alternate (fibers h w) = Some current"
    and "updateQueue (fibers h current) = Some q0"
  shows "firstEffect (queues (snd (ensureWorkInProgressQueueIsAClone w q0 h))
                        (fst (ensureWorkInProgressQueueIsAClone w q0 h))) = None"
    "lastEffect (queues (snd (ensureWorkInProgressQueueIsAClone w q0 h))
                        (fst (ensureWorkInProgressQueueIsAClone w q0 h))) = None"
    "firstCapturedEffect (queues (snd (ensureWorkInProgressQueueIsAClone w q0 h))
                        (fst (ensureWorkInProgressQueueIsAClone w q0 h))) = None"
    "lastCapturedEffect (queues (snd (ensureWorkInProgressQueueIsAClone w q0 h))
                        (fst (ensureWorkInProgressQueueIsAClone w q0 h))) = None"
  using assms
  by (simp_all add: ensureWorkInProgressQueueIsAClone_def case_prod_beta cloneUpdateQueue_def)

text \<open>
  The effect lists that a pass leaves in the queue it worked on, when they were empty
  as the loops started: the pass cloned the queue, or the effect lists of the queue
  were empty.
\<close>

lemma processUpdateQueue_effects_fresh:
  assumes ns: "chain (nextOf h) (firstUpdate (queues h queue)) ns"
    and cs: "chain (nextOf h) (workingCaptured w queue h) cs"
    and dj: "set ns \<inter> set cs = {}"
    and fr: "(\<exists>current. alternate (fibers h w) = Some current
                 \<and> updateQueue (fibers h current) = Some queue)
             \<or> (firstEffect (queues h queue) = None \<and> lastEffect (queues h queue) = None
                 \<and> firstCapturedEffect (queues h queue) = None
                 \<and> lastCapturedEffect (queues h queue) = None)"
  shows "\<exists>h1. processUpdateQueue c w queue p i r h = Some h1
           \<and> called h1 = called h
           \<and> sameRecords h h1
           \<and> chain (nextEffectOf h1) (firstEffect (queues h1 (workingQueue w queue h)))
                (appliedWithCallback h r ns)
           \<and> chain (nextEffectOf h1) (firstCapturedEffect (queues h1 (workingQueue w queue h)))
                (appliedWithCallback h r cs)"
proof -
  let ?h0 = "h\<lparr>hasForceUpdate := False\<rparr>"
  let ?E = "ensureWorkInProgressQueueIsAClone w queue ?h0"
  let ?q = "workingQueue w queue h"
  let ?h1 = "snd ?E"
  let ?h2 = "snd (ensureWorkInProgressQueueIsAClone w queue h)"
  let ?s = "afterLoops c w ?q p i r ?h1 ns cs"
  let ?h' = "finishProcessing c w ?q ?s"
  have q: "fst ?E = ?q" by (simp add: workingQueue_def)
  have E: "?E = (?q, ?h1)" using q by (metis prod.collapse)
  have u1: "updates ?h1 = updates h" by simp
  have nx: "nextOf ?h1 = nextOf h" using u1 by (rule nextOf_updates)
  have sr: "sameRecords h ?h1" by (simp add: sameRecords_def)
  have wc: "firstCapturedUpdate (queues ?h2 ?q) = workingCaptured w queue h"
    by (simp add: workingCaptured_def workingQueue_def)
  have fu: "firstUpdate (queues ?h2 ?q) = firstUpdate (queues h queue)"
    by (simp add: workingQueue_def)
  have ef: "firstEffect (queues ?h2 ?q) = None \<and> lastEffect (queues ?h2 ?q) = None
    \<and> firstCapturedEffect (queues ?h2 ?q) = None \<and> lastCapturedEffect (queues ?h2 ?q) = None"
    using fr
  proof
    assume "\<exists>current. alternate (fibers h w) = Some current
                 \<and> updateQueue (fibers h current) = Some queue"
    then obtain current where a: "alternate (fibers h w) = Some current"
      and b: "updateQueue (fibers h current) = Some queue" by blast
    show ?thesis unfolding workingQueue_def
      by (intro conjI ensure_effect_fields_clone [OF a b])
  next
    assume "firstEffect (queues h queue) = None \<and> lastEffect (queues h queue) = None
                 \<and> firstCapturedEffect (queues h queue) = None
                 \<and> lastCapturedEffect (queues h queue) = None"
    then have fx: "firstEffect (queues h queue) = None" "lastEffect (queues h queue) = None"
      "firstCapturedEffect (queues h queue) = None" "lastCapturedEffect (queues h queue) = None"
      by simp_all
    show ?thesis unfolding workingQueue_def
      by (intro conjI ensure_effect_fields [OF fx])
  qed
  have n1: "chain (nextOf ?h1) (firstUpdate (queues ?h1 ?q)) ns" by (simp add: nx fu ns)
  have c1: "chain (nextOf ?h1) (firstCapturedUpdate (queues ?h1 ?q)) cs" by (simp add: nx wc cs)
  have run: "processUpdateQueue c w queue p i r h = Some ?h'"
    using E n1 c1 by (rule processUpdateQueue_eq)
  have sr': "sameRecords h ?h'"
    using sameRecords_trans [OF sr afterLoops_sameRecords [of ?h1 c w ?q p i r ns cs]]
    by (simp add: sameRecords_def)
  have e1: "firstEffect (queues ?h1 ?q) = None" "lastEffect (queues ?h1 ?q) = None"
    and e2: "firstCapturedEffect (queues ?h1 ?q) = None" "lastCapturedEffect (queues ?h1 ?q) = None"
    by (simp_all add: ef)
  note al = afterLoops_effects [OF n1 c1 dj e1 e2, of c w p i r]
  have a1: "appliedWithCallback ?h1 r ns = appliedWithCallback h r ns"
    "appliedWithCallback ?h1 r cs = appliedWithCallback h r cs"
    by (rule appliedWithCallback_cong [OF sr])+
  have ne: "nextEffectOf ?h' = nextEffectOf (heap ?s)"
    by (rule nextEffectOf_updates) simp
  have x1: "chain (nextEffectOf ?h') (firstEffect (queues ?h' ?q)) (appliedWithCallback h r ns)"
    using al [THEN conjunct1] unfolding a1 ne by (simp add: effectList_def)
  have x2: "chain (nextEffectOf ?h') (firstCapturedEffect (queues ?h' ?q)) (appliedWithCallback h r cs)"
    using al [THEN conjunct2] unfolding a1 ne by (simp add: effectList_def)
  have ca: "called ?h' = called h" by simp
  show ?thesis
    by (intro exI [of _ ?h'] conjI run ca sr' x1 x2)
qed

lemma processUpdateQueue_effects:
  assumes ns: "chain (nextOf h) (firstUpdate (queues h queue)) ns"
    and cs: "chain (nextOf h) (workingCaptured w queue h) cs"
    and dj: "set ns \<inter> set cs = {}"
    and fx: "firstEffect (queues h queue) = None" "lastEffect (queues h queue) = None"
      "firstCapturedEffect (queues h queue) = None" "lastCapturedEffect (queues h queue) = None"
  shows "\<exists>h1. processUpdateQueue c w queue p i r h = Some h1
           \<and> called h1 = called h
           \<and> sameRecords h h1
           \<and> chain (nextEffectOf h1) (firstEffect (queues h1 (workingQueue w queue h)))
                (appliedWithCallback h r ns)
           \<and> chain (nextEffectOf h1) (firstCapturedEffect (queues h1 (workingQueue w queue h)))
                (appliedWithCallback h r cs)"
  using ns cs dj by (rule processUpdateQueue_effects_fresh) (simp add: fx)

subsection \<open>A pass that skips every record\<close>




lemma workingQueue_cases:
  "workingQueue w queue h = queue \<or> workingQueue w queue h = queueCount h"
  by (simp add: workingQueue_def ensureWorkInProgressQueueIsAClone_def case_prod_beta
        split: option.splits)

text \<open>
  C9. A queue whose list of updates and list of captured updates are both empty is
  left as it is by a pass, whatever the render expiration time: the pass returns, the
  resulting state is the queue's base state, and the base state and the two heads of the
  queue (and of the queue object the pass worked on) are unchanged.
\<close>

theorem processUpdateQueue_resolved_is_noop:
  assumes "firstUpdate (queues h queue) = None"
    and "firstCapturedUpdate (queues h queue) = None"
  shows "\<exists>h'. processUpdateQueue c w queue props instance r h = Some h'
           \<and> memoizedState (fibers h' w) = baseState (queues h queue)
           \<and> baseState (queues h' queue) = baseState (queues h queue)
           \<and> firstUpdate (queues h' queue) = None
           \<and> firstCapturedUpdate (queues h' queue) = None
           \<and> baseState (queues h' (workingQueue w queue h)) = baseState (queues h queue)
           \<and> firstUpdate (queues h' (workingQueue w queue h)) = None
           \<and> firstCapturedUpdate (queues h' (workingQueue w queue h)) = None"
proof -
  have ns: "chain (nextOf h) (firstUpdate (queues h queue)) []"
    using assms(1) by simp
  have cs: "chain (nextOf h) (workingCaptured w queue h) []"
    using assms(2) by (simp add: workingCaptured_None)
  from processUpdateQueue_run [OF ns cs, of c props "instance" r]
  obtain h' where run: "processUpdateQueue c w queue props instance r h = Some h'"
    and m: "memoizedState (fibers h' w) =
       stateAfter c w queue props instance h (filter (\<lambda>u. \<not> insufficient h r u) [])
         (stateAfter c w queue props instance h (filter (\<lambda>u. \<not> insufficient h r u) [])
            (baseState (queues h queue)))"
    and f: "firstUpdate (queues h' (workingQueue w queue h)) = find (insufficient h r) []"
    and g: "firstCapturedUpdate (queues h' (workingQueue w queue h)) = find (insufficient h r) []"
    and b: "baseState (queues h' (workingQueue w queue h)) =
       (if find (insufficient h r) [] \<noteq> None
        then stateAfter c w queue props instance h (takeWhile (\<lambda>u. \<not> insufficient h r u) [])
               (baseState (queues h queue))
        else if find (insufficient h r) [] \<noteq> None
        then stateAfter c w queue props instance h (takeWhile (\<lambda>u. \<not> insufficient h r u) [])
               (stateAfter c w queue props instance h (filter (\<lambda>u. \<not> insufficient h r u) [])
                  (baseState (queues h queue)))
        else memoizedState (fibers h' w))"
    and oth: "\<forall>q'. q' \<noteq> workingQueue w queue h \<longrightarrow> queues h' q' = queues h q'"
    by (elim exE conjE) (rule that)
  have m': "memoizedState (fibers h' w) = baseState (queues h queue)" using m by simp
  have b': "baseState (queues h' (workingQueue w queue h)) = baseState (queues h queue)"
    using b m' by simp
  have f': "firstUpdate (queues h' (workingQueue w queue h)) = None" using f by simp
  have g': "firstCapturedUpdate (queues h' (workingQueue w queue h)) = None" using g by simp
  have q: "baseState (queues h' queue) = baseState (queues h queue)
           \<and> firstUpdate (queues h' queue) = None \<and> firstCapturedUpdate (queues h' queue) = None"
  proof (cases "queue = workingQueue w queue h")
    case True
    then show ?thesis using b' f' g' by simp
  next
    case False
    then have "queues h' queue = queues h queue" using oth by blast
    then show ?thesis using assms by simp
  qed
  show ?thesis using run m' b' f' g' q by blast
qed

theorem processUpdateQueue_resolved_is_noop_witness:
  "firstUpdate (queues resolvedHeap 0) = None
   \<and> firstCapturedUpdate (queues resolvedHeap 0) = None
   \<and> (\<exists>h'. processUpdateQueue sampleConstants 0 0 JSNull JSNull 5 resolvedHeap = Some h'
          \<and> memoizedState (fibers h' 0) = JSNumber 7
          \<and> baseState (queues h' 0) = JSNumber 7
          \<and> firstUpdate (queues h' 0) = None
          \<and> firstCapturedUpdate (queues h' 0) = None)"
proof -
  have a: "firstUpdate (queues resolvedHeap 0) = None"
    by (simp add: resolvedHeap_def emptyHeap_def createUpdateQueue_def)
  have b: "firstCapturedUpdate (queues resolvedHeap 0) = None"
    by (simp add: resolvedHeap_def emptyHeap_def createUpdateQueue_def)
  have c: "baseState (queues resolvedHeap 0) = JSNumber 7"
    by (simp add: resolvedHeap_def emptyHeap_def createUpdateQueue_def)
  show ?thesis
    using processUpdateQueue_resolved_is_noop [OF a b, of sampleConstants 0 JSNull JSNull 5] a b c
    by auto
qed

text \<open>
  C7. For a record of tag \<open>UpdateState\<close> (the merging kind), let the partial state
  be the payload, or the result of calling the payload function on the instance, the
  previous state and the props. If the partial state is \<open>null\<close> or \<open>undefined\<close>,
  \<open>getStateFromUpdate\<close> returns the previous state and leaves the store alone;
  otherwise it returns an object whose properties are those of the partial state and,
  for every other key, those of the previous state. For a record of tag
  \<open>ReplaceState\<close> the result is the payload, or the result of the payload function.
\<close>

theorem getStateFromUpdate_merge_and_replace:
  "(tag (updates h u) = UpdateState \<longrightarrow>
      (let partialState =
             (case payload (updates h u) of
                PayloadValue v \<Rightarrow> v
              | PayloadFunction f \<Rightarrow> f instance prevState props)
       in if partialState = JSNull \<or> partialState = JSUndefined
          then getStateFromUpdate c w q u prevState props instance h = (prevState, h)
          else \<exists>m. getStateFromUpdate c w q u prevState props instance h = (JSObject m, h)
                 \<and> (\<forall>k. m k = (case ownProperties partialState k of
                                  Some v \<Rightarrow> Some v
                                | None \<Rightarrow> ownProperties prevState k))))
   \<and> (tag (updates h u) = ReplaceState \<longrightarrow>
        getStateFromUpdate c w q u prevState props instance h =
          ((case payload (updates h u) of
              PayloadValue v \<Rightarrow> v
            | PayloadFunction f \<Rightarrow> f instance prevState props), h))"
proof (intro conjI impI)
  assume t: "tag (updates h u) = UpdateState"
  show "let partialState =
             (case payload (updates h u) of
                PayloadValue v \<Rightarrow> v
              | PayloadFunction f \<Rightarrow> f instance prevState props)
       in if partialState = JSNull \<or> partialState = JSUndefined
          then getStateFromUpdate c w q u prevState props instance h = (prevState, h)
          else \<exists>m. getStateFromUpdate c w q u prevState props instance h = (JSObject m, h)
                 \<and> (\<forall>k. m k = (case ownProperties partialState k of
                                  Some v \<Rightarrow> Some v
                                | None \<Rightarrow> ownProperties prevState k))"
    using t
    by (cases "payload (updates h u)")
       (auto simp add: getStateFromUpdate_def updateStateCase_def objectAssign_def Let_def
          map_add_def split: option.split)
next
  assume "tag (updates h u) = ReplaceState"
  then show "getStateFromUpdate c w q u prevState props instance h =
          ((case payload (updates h u) of
              PayloadValue v \<Rightarrow> v
            | PayloadFunction f \<Rightarrow> f instance prevState props), h)"
    by (cases "payload (updates h u)") (simp_all add: getStateFromUpdate_def)
qed

theorem getStateFromUpdate_merge_and_replace_witness:
  "tag (updates mergeHeap 0) = UpdateState
   \<and> (\<exists>m. getStateFromUpdate sampleConstants 0 0 0
             (JSObject [''a'' \<mapsto> JSNumber 0, ''b'' \<mapsto> JSNumber 2]) JSNull JSNull mergeHeap
           = (JSObject m, mergeHeap)
         \<and> m ''a'' = Some (JSNumber 1) \<and> m ''b'' = Some (JSNumber 2))
   \<and> tag (updates mergeHeap 1) = UpdateState
   \<and> getStateFromUpdate sampleConstants 0 0 1 (JSNumber 3) JSNull JSNull mergeHeap
       = (JSNumber 3, mergeHeap)
   \<and> tag (updates mergeHeap 2) = ReplaceState
   \<and> getStateFromUpdate sampleConstants 0 0 2 (JSNumber 3) JSNull JSNull mergeHeap
       = (JSNumber 5, mergeHeap)"
  using getStateFromUpdate_merge_and_replace
          [of mergeHeap 0 JSNull "JSObject [''a'' \<mapsto> JSNumber 0, ''b'' \<mapsto> JSNumber 2]" JSNull
              sampleConstants 0 0]
        getStateFromUpdate_merge_and_replace
          [of mergeHeap 1 JSNull "JSNumber 3" JSNull sampleConstants 0 0]
        getStateFromUpdate_merge_and_replace
          [of mergeHeap 2 JSNull "JSNumber 3" JSNull sampleConstants 0 0]
  by (auto simp add: mergeHeap_def emptyHeap_def createUpdate_def Let_def)

lemma recordsHeap_simps [simp]:
  "updates recordsHeap 2 = digitRecord 2 1"
  "updates recordsHeap 3 = digitRecord 1 2"
  "updates recordsHeap 4 = digitRecord 2 3"
  "updates recordsHeap 5 = digitRecord 1 4"
  "updates recordsHeap 6 = capturedRecord"
  "fibers recordsHeap 0 = \<lparr>alternate = None, updateQueue = None, memoizedState = JSNumber 0,
                            effectTag = 0, fiberExpirationTime = 0\<rparr>"
  "queueCount recordsHeap = 0"
  by (simp_all add: recordsHeap_def emptyHeap_def)

lemma digitRecord_simps [simp]:
  "expirationTime (digitRecord t d) = t"
  "tag (digitRecord t d) = ReplaceState"
  "payload (digitRecord t d) = appendDigit d"
  "callback (digitRecord t d) = CallbackValue JSNull"
  "nextUpdate (digitRecord t d) = None"
  "nextEffect (digitRecord t d) = None"
  by (simp_all add: digitRecord_def createUpdate_def)

lemma digitsHeap_queue:
  "updateQueue (fibers digitsHeap 0) = Some 0"
  "alternate (fibers digitsHeap 0) = None"
  "baseState (queues digitsHeap 0) = JSNumber 0"
  "firstUpdate (queues digitsHeap 0) = Some 2"
  "lastUpdate (queues digitsHeap 0) = Some 5"
  "firstCapturedUpdate (queues digitsHeap 0) = None"
  "lastCapturedUpdate (queues digitsHeap 0) = None"
  "nextUpdate (updates digitsHeap 2) = Some 3"
  "nextUpdate (updates digitsHeap 3) = Some 4"
  "nextUpdate (updates digitsHeap 4) = Some 5"
  "nextUpdate (updates digitsHeap 5) = None"
  by (simp_all add: digitsHeap_def enqueueUpdate_def enqueueUpdateQueues_def
        appendUpdateToQueue_def createUpdateQueue_def Let_def newQueue_def setFiber_def
        setQueue_def setUpdate_def)

lemma digitsHeap_records:
  "expirationTime (updates digitsHeap 2) = 2" "expirationTime (updates digitsHeap 3) = 1"
  "expirationTime (updates digitsHeap 4) = 2" "expirationTime (updates digitsHeap 5) = 1"
  "tag (updates digitsHeap 2) = ReplaceState" "tag (updates digitsHeap 3) = ReplaceState"
  "tag (updates digitsHeap 4) = ReplaceState" "tag (updates digitsHeap 5) = ReplaceState"
  "payload (updates digitsHeap 2) = appendDigit 1" "payload (updates digitsHeap 3) = appendDigit 2"
  "payload (updates digitsHeap 4) = appendDigit 3" "payload (updates digitsHeap 5) = appendDigit 4"
  by (simp_all add: digitsHeap_def enqueueUpdate_def enqueueUpdateQueues_def
        appendUpdateToQueue_def createUpdateQueue_def Let_def newQueue_def setFiber_def
        setQueue_def setUpdate_def)

lemma digitsHeap_chain: "chain (nextOf digitsHeap) (firstUpdate (queues digitsHeap 0)) [2, 3, 4, 5]"
  by (simp add: digitsHeap_queue nextOf_def)

lemma capturedHeap_queue:
  "updateQueue (fibers capturedHeap 0) = Some 0"
  "alternate (fibers capturedHeap 0) = None"
  "queues capturedHeap 0 = (queues digitsHeap 0)\<lparr>firstCapturedUpdate := Some 6, lastCapturedUpdate := Some 6\<rparr>"
  "updates capturedHeap = updates digitsHeap"
  by (simp_all add: capturedHeap_def enqueueCapturedUpdate_def digitsHeap_queue
        ensureWorkInProgressQueueIsAClone_def)

lemma capturedHeap_record:
  "expirationTime (updates capturedHeap 6) = 3"
  "tag (updates capturedHeap 6) = CaptureUpdate"
  "payload (updates capturedHeap 6) = wrapSeen"
  "nextUpdate (updates capturedHeap 6) = None"
  by (simp_all add: capturedHeap_queue digitsHeap_def enqueueUpdate_def enqueueUpdateQueues_def
        appendUpdateToQueue_def createUpdateQueue_def Let_def newQueue_def setFiber_def
        setQueue_def setUpdate_def capturedRecord_def createUpdate_def)

lemma capturedHeap_chains:
  "chain (nextOf capturedHeap) (firstUpdate (queues capturedHeap 0)) [2, 3, 4, 5]"
  "chain (nextOf capturedHeap) (workingCaptured 0 0 capturedHeap) [6]"
  using capturedHeap_record(4)
  by (simp_all add: capturedHeap_queue digitsHeap_queue nextOf_def workingCaptured_def
        ensureWorkInProgressQueueIsAClone_def)

text \<open>
  C8. In one pass the captured updates of sufficient priority are applied, in their
  order, to the state that results from applying the updates of sufficient priority of
  the normal list, whatever the expiration times in the two lists are, and the fiber's
  remaining expiration time is the greatest of \<open>NoWork\<close> and the expiration times of
  the skipped records of both lists.
\<close>

theorem captured_updates_applied_after_normal_updates:
  assumes "chain (nextOf h) (firstUpdate (queues h queue)) ns"
    and "chain (nextOf h) (workingCaptured w queue h) cs"
  shows "\<exists>h'. processUpdateQueue c w queue props instance r h = Some h'
           \<and> memoizedState (fibers h' w) =
               stateAfter c w queue props instance h (filter (\<lambda>u. \<not> insufficient h r u) cs)
                 (stateAfter c w queue props instance h (filter (\<lambda>u. \<not> insufficient h r u) ns)
                    (baseState (queues h queue)))
           \<and> fiberExpirationTime (fibers h' w) =
               Max (insert (NoWork c)
                      ((\<lambda>u. expirationTime (updates h u)) `
                          {u \<in> set ns \<union> set cs. insufficient h r u}))"
proof -
  from processUpdateQueue_run [OF assms, of c props "instance" r]
  obtain h' where "processUpdateQueue c w queue props instance r h = Some h'"
    and "memoizedState (fibers h' w) =
       stateAfter c w queue props instance h (filter (\<lambda>u. \<not> insufficient h r u) cs)
         (stateAfter c w queue props instance h (filter (\<lambda>u. \<not> insufficient h r u) ns)
            (baseState (queues h queue)))"
    and "fiberExpirationTime (fibers h' w) =
       Max (insert (NoWork c)
              ((\<lambda>u. expirationTime (updates h u)) ` set (filter (insufficient h r) (ns @ cs))))"
    by (elim exE conjE) (rule that)
  moreover have "set (filter (insufficient h r) (ns @ cs)) = {u \<in> set ns \<union> set cs. insufficient h r u}"
    by auto
  ultimately show ?thesis by simp
qed

theorem captured_updates_applied_after_normal_updates_witness:
  "chain (nextOf capturedHeap) (firstUpdate (queues capturedHeap 0)) [2, 3, 4, 5]
   \<and> chain (nextOf capturedHeap) (workingCaptured 0 0 capturedHeap) [6]
   \<and> (\<exists>h'. processUpdateQueue sampleConstants 0 0 JSNull JSNull 1 capturedHeap = Some h'
          \<and> ownProperties (memoizedState (fibers h' 0)) ''seen'' = Some (JSNumber 1234)
          \<and> fiberExpirationTime (fibers h' 0) = 0)"
proof -
  have x: "expirationTime (updates digitsHeap 6) = 3"
    using capturedHeap_record(1) by (simp add: capturedHeap_queue)
  have e: "insufficient capturedHeap 1 u = (expirationTime (updates digitsHeap u) < 1)" for u
    by (simp add: insufficient_def capturedHeap_queue)
  have f1: "filter (\<lambda>u. \<not> insufficient capturedHeap 1 u) [2, 3, 4, 5] = [2, 3, 4, 5]"
    by (simp add: e digitsHeap_records)
  have f2: "filter (\<lambda>u. \<not> insufficient capturedHeap 1 u) [6] = [6]"
    by (simp add: e x)
  have f3: "{u \<in> set [2, 3, 4, 5] \<union> set [6]. insufficient capturedHeap 1 u} = {}"
    by (auto simp add: e x digitsHeap_records)
  have b: "baseState (queues capturedHeap 0) = JSNumber 0"
    by (simp add: capturedHeap_queue digitsHeap_queue)
  have s1: "stateAfter sampleConstants 0 0 JSNull JSNull capturedHeap [2, 3, 4, 5] (JSNumber 0)
            = JSNumber 1234"
    by (simp add: getStateFromUpdate_def capturedHeap_queue digitsHeap_records appendDigit_def)
  have s2: "stateAfter sampleConstants 0 0 JSNull JSNull capturedHeap [6] (JSNumber 1234)
            = JSObject [''seen'' \<mapsto> JSNumber 1234]"
    using capturedHeap_record
    by (simp add: getStateFromUpdate_def updateStateCase_def objectAssign_def wrapSeen_def)
  from captured_updates_applied_after_normal_updates
         [OF capturedHeap_chains, of sampleConstants JSNull JSNull 1]
  obtain h' where r: "processUpdateQueue sampleConstants 0 0 JSNull JSNull 1 capturedHeap = Some h'"
    and m: "memoizedState (fibers h' 0) =
       stateAfter sampleConstants 0 0 JSNull JSNull capturedHeap
         (filter (\<lambda>u. \<not> insufficient capturedHeap 1 u) [6])
         (stateAfter sampleConstants 0 0 JSNull JSNull capturedHeap
            (filter (\<lambda>u. \<not> insufficient capturedHeap 1 u) [2, 3, 4, 5])
            (baseState (queues capturedHeap 0)))"
    and t: "fiberExpirationTime (fibers h' 0) =
       Max (insert (NoWork sampleConstants)
              ((\<lambda>u. expirationTime (updates capturedHeap u)) `
                  {u \<in> set [2, 3, 4, 5] \<union> set [6]. insufficient capturedHeap 1 u}))"
    by (elim exE conjE) (rule that)
  have m': "ownProperties (memoizedState (fibers h' 0)) ''seen'' = Some (JSNumber 1234)"
    unfolding m f1 f2 b s1 s2 by simp
  have t': "fiberExpirationTime (fibers h' 0) = 0"
    unfolding t f3 by (simp add: sampleConstants_def)
  show ?thesis by (intro conjI exI [of _ h'] capturedHeap_chains r m' t')
qed

lemma find_None_filter: "find P xs = None \<Longrightarrow> filter (\<lambda>x. \<not> P x) xs = xs"
  by (induction xs) (auto split: if_splits)

lemma Max_insert_floor:
  assumes "finite S" "S \<noteq> {}" "\<forall>x\<in>S. (a::int) \<le> x"
  shows "Max (insert a S) = Max S"
proof -
  have "a \<le> Max S" using assms by (meson Max_in)
  then show ?thesis using assms by (simp add: max_def)
qed

lemma onlyCapturedHeap_simps:
  "updates onlyCapturedHeap = updates recordsHeap"
  "baseState (queues onlyCapturedHeap 0) = JSNumber 0"
  "firstUpdate (queues onlyCapturedHeap 0) = None"
  "firstCapturedUpdate (queues onlyCapturedHeap 0) = Some 6"
  "alternate (fibers onlyCapturedHeap 0) = None"
  by (simp_all add: onlyCapturedHeap_def enqueueCapturedUpdate_def createUpdateQueue_def
        case_prod_beta Let_def)

lemma onlyCapturedHeap_chains:
  "chain (nextOf onlyCapturedHeap) (firstUpdate (queues onlyCapturedHeap 0)) []"
  "chain (nextOf onlyCapturedHeap) (workingCaptured 0 0 onlyCapturedHeap) [6]"
  by (simp_all add: onlyCapturedHeap_simps nextOf_def workingCaptured_def
        ensureWorkInProgressQueueIsAClone_def capturedRecord_def createUpdate_def)

text \<open>
  C2, as stated, fails: when the only skipped record is a captured one, the pass leaves
  \<open>firstUpdate\<close> empty; the skipped record becomes \<open>firstCapturedUpdate\<close>.
\<close>

theorem firstUpdate_not_first_skipped_counterexample:
  "insufficient onlyCapturedHeap 4 6
   \<and> processUpdateQueue sampleConstants 0 0 JSNull JSNull 4 onlyCapturedHeap \<noteq> None
   \<and> firstUpdate
        (queues (the (processUpdateQueue sampleConstants 0 0 JSNull JSNull 4 onlyCapturedHeap)) 0)
       = None
   \<and> firstCapturedUpdate
        (queues (the (processUpdateQueue sampleConstants 0 0 JSNull JSNull 4 onlyCapturedHeap)) 0)
       = Some 6"
proof -
  have i: "insufficient onlyCapturedHeap 4 6"
    by (simp add: insufficient_def onlyCapturedHeap_simps capturedRecord_def createUpdate_def)
  have wq: "workingQueue 0 0 onlyCapturedHeap = 0"
    by (simp add: workingQueue_def ensureWorkInProgressQueueIsAClone_def onlyCapturedHeap_simps)
  from processUpdateQueue_run [OF onlyCapturedHeap_chains, of sampleConstants JSNull JSNull 4]
  obtain h' where r: "processUpdateQueue sampleConstants 0 0 JSNull JSNull 4 onlyCapturedHeap = Some h'"
    and f: "firstUpdate (queues h' (workingQueue 0 0 onlyCapturedHeap))
              = find (insufficient onlyCapturedHeap 4) []"
    and g: "firstCapturedUpdate (queues h' (workingQueue 0 0 onlyCapturedHeap))
              = find (insufficient onlyCapturedHeap 4) [6]"
    by (elim exE conjE) (rule that)
  show ?thesis using i f g by (simp add: r wq)
qed

text \<open>
  C2, amended. After a pass, \<open>firstUpdate\<close> of the queue worked on is the first skipped
  record of the list of updates (empty when none of them was skipped) and
  \<open>firstCapturedUpdate\<close> is the first skipped record of the list of captured updates
  (empty when none of them was skipped). The new base state is the result computed
  just before the first skipped record, in the order of processing (the updates, then
  the captured updates); when no record was skipped it is the final result.
  The expiration time written to the fiber is the greatest of \<open>NoWork\<close> and the
  expiration times of the skipped records, which is the greatest skipped expiration
  time when some record was skipped and \<open>NoWork\<close> is not above the skipped ones. The tail
  pointer of each list in which no record was skipped is reset to empty.
\<close>

theorem processUpdateQueue_remainder:
  assumes "chain (nextOf h) (firstUpdate (queues h queue)) ns"
    and "chain (nextOf h) (workingCaptured w queue h) cs"
  shows "\<exists>h'. processUpdateQueue c w queue props instance r h = Some h'
           \<and> firstUpdate (queues h' (workingQueue w queue h)) = find (insufficient h r) ns
           \<and> firstCapturedUpdate (queues h' (workingQueue w queue h)) = find (insufficient h r) cs
           \<and> baseState (queues h' (workingQueue w queue h)) =
               (if find (insufficient h r) ns \<noteq> None
                then stateAfter c w queue props instance h
                       (takeWhile (\<lambda>u. \<not> insufficient h r u) ns) (baseState (queues h queue))
                else if find (insufficient h r) cs \<noteq> None
                then stateAfter c w queue props instance h
                       (takeWhile (\<lambda>u. \<not> insufficient h r u) cs)
                       (stateAfter c w queue props instance h ns (baseState (queues h queue)))
                else memoizedState (fibers h' w))
           \<and> fiberExpirationTime (fibers h' w) =
               Max (insert (NoWork c)
                      ((\<lambda>u. expirationTime (updates h u)) `
                          {u \<in> set ns \<union> set cs. insufficient h r u}))
           \<and> ({u \<in> set ns \<union> set cs. insufficient h r u} \<noteq> {}
                \<and> (\<forall>u \<in> set ns \<union> set cs.
                       insufficient h r u \<longrightarrow> NoWork c \<le> expirationTime (updates h u))
                \<longrightarrow> fiberExpirationTime (fibers h' w) =
                      Max ((\<lambda>u. expirationTime (updates h u)) `
                             {u \<in> set ns \<union> set cs. insufficient h r u}))
           \<and> (find (insufficient h r) ns = None
                \<longrightarrow> lastUpdate (queues h' (workingQueue w queue h)) = None)
           \<and> (find (insufficient h r) cs = None
                \<longrightarrow> lastCapturedUpdate (queues h' (workingQueue w queue h)) = None)"
proof -
  let ?S = "{u \<in> set ns \<union> set cs. insufficient h r u}"
  let ?e = "\<lambda>u. expirationTime (updates h u)"
  from processUpdateQueue_run [OF assms, of c props "instance" r]
  obtain h' where run: "processUpdateQueue c w queue props instance r h = Some h'"
    and t: "fiberExpirationTime (fibers h' w) =
       Max (insert (NoWork c) (?e ` set (filter (insufficient h r) (ns @ cs))))"
    and f: "firstUpdate (queues h' (workingQueue w queue h)) = find (insufficient h r) ns"
    and g: "firstCapturedUpdate (queues h' (workingQueue w queue h)) = find (insufficient h r) cs"
    and b: "baseState (queues h' (workingQueue w queue h)) =
       (if find (insufficient h r) ns \<noteq> None
        then stateAfter c w queue props instance h (takeWhile (\<lambda>u. \<not> insufficient h r u) ns)
               (baseState (queues h queue))
        else if find (insufficient h r) cs \<noteq> None
        then stateAfter c w queue props instance h (takeWhile (\<lambda>u. \<not> insufficient h r u) cs)
               (stateAfter c w queue props instance h (filter (\<lambda>u. \<not> insufficient h r u) ns)
                  (baseState (queues h queue)))
        else memoizedState (fibers h' w))"
    and l: "lastUpdate (queues h' (workingQueue w queue h)) =
       (if find (insufficient h r) ns = None then None else lastUpdate (queues h queue))"
    and k: "find (insufficient h r) cs = None
              \<longrightarrow> lastCapturedUpdate (queues h' (workingQueue w queue h)) = None"
    by (elim exE conjE) (rule that)
  have S: "set (filter (insufficient h r) (ns @ cs)) = ?S" by auto
  have t1: "fiberExpirationTime (fibers h' w) = Max (insert (NoWork c) (?e ` ?S))"
    using t unfolding S .
  have t2: "fiberExpirationTime (fibers h' w) = Max (?e ` ?S)"
    if "?S \<noteq> {}" "\<forall>u \<in> set ns \<union> set cs. insufficient h r u \<longrightarrow> NoWork c \<le> ?e u"
  proof -
    have "Max (insert (NoWork c) (?e ` ?S)) = Max (?e ` ?S)"
      using that by (intro Max_insert_floor) auto
    then show ?thesis using t1 by simp
  qed
  have b': "baseState (queues h' (workingQueue w queue h)) =
               (if find (insufficient h r) ns \<noteq> None
                then stateAfter c w queue props instance h
                       (takeWhile (\<lambda>u. \<not> insufficient h r u) ns) (baseState (queues h queue))
                else if find (insufficient h r) cs \<noteq> None
                then stateAfter c w queue props instance h
                       (takeWhile (\<lambda>u. \<not> insufficient h r u) cs)
                       (stateAfter c w queue props instance h ns (baseState (queues h queue)))
                else memoizedState (fibers h' w))"
  proof (cases "find (insufficient h r) ns = None")
    case True
    then have "filter (\<lambda>u. \<not> insufficient h r u) ns = ns" by (rule find_None_filter)
    then show ?thesis using b by simp
  next
    case False
    then show ?thesis using b by simp
  qed
  show ?thesis
    by (intro exI [of _ h'] conjI run f g b' t1 impI) (use t2 l k in simp_all)
qed

theorem processUpdateQueue_remainder_witness:
  "chain (nextOf digitsHeap) (firstUpdate (queues digitsHeap 0)) [2, 3, 4, 5]
   \<and> chain (nextOf digitsHeap) (workingCaptured 0 0 digitsHeap) []
   \<and> (\<exists>h'. processUpdateQueue sampleConstants 0 0 JSNull JSNull 2 digitsHeap = Some h'
          \<and> firstUpdate (queues h' 0) = Some 3
          \<and> firstCapturedUpdate (queues h' 0) = None
          \<and> baseState (queues h' 0) = JSNumber 1
          \<and> fiberExpirationTime (fibers h' 0) = 1
          \<and> lastCapturedUpdate (queues h' 0) = None)"
proof -
  have cs: "chain (nextOf digitsHeap) (workingCaptured 0 0 digitsHeap) []"
    by (simp add: workingCaptured_None digitsHeap_queue)
  have wq: "workingQueue 0 0 digitsHeap = 0"
    by (simp add: workingQueue_def ensureWorkInProgressQueueIsAClone_def digitsHeap_queue)
  have i: "insufficient digitsHeap 2 u = (expirationTime (updates digitsHeap u) < 2)" for u
    by (simp add: insufficient_def)
  have f: "find (insufficient digitsHeap 2) [2, 3, 4, 5] = Some 3"
    by (simp add: i digitsHeap_records)
  have tw: "takeWhile (\<lambda>u. \<not> insufficient digitsHeap 2 u) [2, 3, 4, 5] = [2]"
    by (simp add: i digitsHeap_records)
  have S: "{u \<in> set [2, 3, 4, 5] \<union> set []. insufficient digitsHeap 2 u} = {3, 5}"
    by (auto simp add: i digitsHeap_records)
  have s: "stateAfter sampleConstants 0 0 JSNull JSNull digitsHeap [2] (JSNumber 0) = JSNumber 1"
    by (simp add: getStateFromUpdate_def digitsHeap_records appendDigit_def)
  from processUpdateQueue_remainder [OF digitsHeap_chain cs, of sampleConstants JSNull JSNull 2]
  obtain h' where r: "processUpdateQueue sampleConstants 0 0 JSNull JSNull 2 digitsHeap = Some h'"
    and 1: "firstUpdate (queues h' (workingQueue 0 0 digitsHeap)) = find (insufficient digitsHeap 2) [2, 3, 4, 5]"
    and 2: "firstCapturedUpdate (queues h' (workingQueue 0 0 digitsHeap)) = find (insufficient digitsHeap 2) []"
    and 3: "baseState (queues h' (workingQueue 0 0 digitsHeap)) =
               (if find (insufficient digitsHeap 2) [2, 3, 4, 5] \<noteq> None
                then stateAfter sampleConstants 0 0 JSNull JSNull digitsHeap
                       (takeWhile (\<lambda>u. \<not> insufficient digitsHeap 2 u) [2, 3, 4, 5])
                       (baseState (queues digitsHeap 0))
                else if find (insufficient digitsHeap 2) [] \<noteq> None
                then stateAfter sampleConstants 0 0 JSNull JSNull digitsHeap
                       (takeWhile (\<lambda>u. \<not> insufficient digitsHeap 2 u) [])
                       (stateAfter sampleConstants 0 0 JSNull JSNull digitsHeap [2, 3, 4, 5]
                          (baseState (queues digitsHeap 0)))
                else memoizedState (fibers h' 0))"
    and 4: "fiberExpirationTime (fibers h' 0) =
               Max (insert (NoWork sampleConstants)
                      ((\<lambda>u. expirationTime (updates digitsHeap u)) `
                          {u \<in> set [2, 3, 4, 5] \<union> set []. insufficient digitsHeap 2 u}))"
    and 5: "find (insufficient digitsHeap 2) [] = None
                \<longrightarrow> lastCapturedUpdate (queues h' (workingQueue 0 0 digitsHeap)) = None"
    by (elim exE conjE) (rule that)
  have a: "firstUpdate (queues h' 0) = Some 3" using 1 unfolding wq f .
  have b: "firstCapturedUpdate (queues h' 0) = None" using 2 unfolding wq by simp
  have c: "baseState (queues h' 0) = JSNumber 1"
    using 3 unfolding wq f tw digitsHeap_queue s by simp
  have d: "fiberExpirationTime (fibers h' 0) = 1"
    using 4 unfolding S by (simp add: digitsHeap_records sampleConstants_def)
  have e: "lastCapturedUpdate (queues h' 0) = None" using 5 unfolding wq by simp
  show ?thesis by (intro conjI exI [of _ h'] digitsHeap_chain cs r a b c d e)
qed

lemma oneRecordHeap_simps:
  "updates oneRecordHeap = updates recordsHeap"
  "baseState (queues oneRecordHeap 0) = JSNumber 0"
  "firstUpdate (queues oneRecordHeap 0) = Some 3"
  "firstCapturedUpdate (queues oneRecordHeap 0) = None"
  "alternate (fibers oneRecordHeap 0) = None"
  by (simp_all add: oneRecordHeap_def enqueueUpdate_def enqueueUpdateQueues_def
        appendUpdateToQueue_def createUpdateQueue_def case_prod_beta Let_def)

lemma oneRecordHeap_chains:
  "chain (nextOf oneRecordHeap) (firstUpdate (queues oneRecordHeap 0)) [3]"
  "chain (nextOf oneRecordHeap) (workingCaptured 0 0 oneRecordHeap) []"
  by (simp_all add: oneRecordHeap_simps nextOf_def workingCaptured_None)

text \<open>
  C5, as stated, fails: a record of expiration time 1 is not less urgent, in the spec's
  order, than the target 2, and yet a pass at 2 skips it: the record stays at the head
  of the queue and the state is not changed.
\<close>

theorem skip_rule_counterexample:
  "\<not> lessUrgentSpec (expirationTime (updates oneRecordHeap 3)) 2
   \<and> processUpdateQueue sampleConstants 0 0 JSNull JSNull 2 oneRecordHeap \<noteq> None
   \<and> firstUpdate
        (queues (the (processUpdateQueue sampleConstants 0 0 JSNull JSNull 2 oneRecordHeap)) 0)
       = Some 3
   \<and> memoizedState
        (fibers (the (processUpdateQueue sampleConstants 0 0 JSNull JSNull 2 oneRecordHeap)) 0)
       = JSNumber 0"
proof -
  have e: "expirationTime (updates oneRecordHeap 3) = 1"
    by (simp add: oneRecordHeap_simps)
  have i: "insufficient oneRecordHeap 2 3"
    by (simp add: insufficient_def e)
  have wq: "workingQueue 0 0 oneRecordHeap = 0"
    by (simp add: workingQueue_def ensureWorkInProgressQueueIsAClone_def oneRecordHeap_simps)
  from processUpdateQueue_run [OF oneRecordHeap_chains, of sampleConstants JSNull JSNull 2]
  obtain h' where r: "processUpdateQueue sampleConstants 0 0 JSNull JSNull 2 oneRecordHeap = Some h'"
    and f: "firstUpdate (queues h' (workingQueue 0 0 oneRecordHeap))
              = find (insufficient oneRecordHeap 2) [3]"
    and m: "memoizedState (fibers h' 0) =
       stateAfter sampleConstants 0 0 JSNull JSNull oneRecordHeap
         (filter (\<lambda>u. \<not> insufficient oneRecordHeap 2 u) [])
         (stateAfter sampleConstants 0 0 JSNull JSNull oneRecordHeap
            (filter (\<lambda>u. \<not> insufficient oneRecordHeap 2 u) [3])
            (baseState (queues oneRecordHeap 0)))"
    by (elim exE conjE) (rule that)
  show ?thesis using f m i by (simp add: r wq e lessUrgentSpec_def oneRecordHeap_simps)
qed

text \<open>
  C5, amended. Expiration times are integers in their usual order, and a greater value
  is the more urgent one: a pass skips a record exactly when its expiration time is
  less than the render expiration time. The records applied by the pass are those of
  expiration time at least the render expiration time, and each list restarts at its
  first record below it. \<open>NoWork\<close> is the least value the remaining expiration time
  can take, not a maximum: the remaining time written to the fiber is the greatest of
  \<open>NoWork\<close> and the expiration times of the skipped records of both lists, and it is
  \<open>NoWork\<close> exactly when no skipped record has an expiration time above \<open>NoWork\<close>.
\<close>

theorem skipped_iff_below_render_time:
  assumes "chain (nextOf h) (firstUpdate (queues h queue)) ns"
    and "chain (nextOf h) (workingCaptured w queue h) cs"
  shows "\<exists>h'. processUpdateQueue c w queue props instance r h = Some h'
           \<and> memoizedState (fibers h' w) =
               stateAfter c w queue props instance h
                 (filter (\<lambda>u. r \<le> expirationTime (updates h u)) cs)
                 (stateAfter c w queue props instance h
                    (filter (\<lambda>u. r \<le> expirationTime (updates h u)) ns)
                    (baseState (queues h queue)))
           \<and> firstUpdate (queues h' (workingQueue w queue h))
               = find (\<lambda>u. expirationTime (updates h u) < r) ns
           \<and> firstCapturedUpdate (queues h' (workingQueue w queue h))
               = find (\<lambda>u. expirationTime (updates h u) < r) cs
           \<and> fiberExpirationTime (fibers h' w)
               = Max (insert (NoWork c)
                        ((\<lambda>u. expirationTime (updates h u))
                           ` set (filter (\<lambda>u. expirationTime (updates h u) < r) (ns @ cs))))
           \<and> ((fiberExpirationTime (fibers h' w) = NoWork c)
                = (\<forall>u \<in> set ns \<union> set cs.
                     expirationTime (updates h u) < r \<longrightarrow> expirationTime (updates h u) \<le> NoWork c))"
proof -
  let ?e = "\<lambda>u. expirationTime (updates h u)"
  let ?S = "?e ` set (filter (\<lambda>u. ?e u < r) (ns @ cs))"
  have i: "insufficient h r = (\<lambda>u. ?e u < r)"
    by (rule ext) (simp add: insufficient_def)
  have n: "(\<lambda>u. \<not> insufficient h r u) = (\<lambda>u. r \<le> ?e u)"
    by (rule ext) (auto simp add: insufficient_def)
  from processUpdateQueue_run [OF assms, of c props "instance" r]
  obtain h' where run: "processUpdateQueue c w queue props instance r h = Some h'"
    and m: "memoizedState (fibers h' w) =
       stateAfter c w queue props instance h (filter (\<lambda>u. \<not> insufficient h r u) cs)
         (stateAfter c w queue props instance h (filter (\<lambda>u. \<not> insufficient h r u) ns)
            (baseState (queues h queue)))"
    and t: "fiberExpirationTime (fibers h' w)
              = Max (insert (NoWork c) (?e ` set (filter (insufficient h r) (ns @ cs))))"
    and f: "firstUpdate (queues h' (workingQueue w queue h)) = find (insufficient h r) ns"
    and g: "firstCapturedUpdate (queues h' (workingQueue w queue h)) = find (insufficient h r) cs"
    by (elim exE conjE) (rule that)
  have t': "fiberExpirationTime (fibers h' w) = Max (insert (NoWork c) ?S)"
    using t unfolding i .
  have fin: "finite ?S" by simp
  have "(Max (insert (NoWork c) ?S) = NoWork c) = (\<forall>x \<in> ?S. x \<le> NoWork c)"
  proof (cases "?S = {}")
    case True
    then show ?thesis by simp
  next
    case False
    have "Max (insert (NoWork c) ?S) = max (NoWork c) (Max ?S)"
      using fin False by (rule Max_insert)
    moreover have "(Max ?S \<le> NoWork c) = (\<forall>x \<in> ?S. x \<le> NoWork c)"
      using fin False by (rule Max_le_iff)
    ultimately show ?thesis by (simp only: max_def) auto
  qed
  also have "\<dots> = (\<forall>u \<in> set ns \<union> set cs. ?e u < r \<longrightarrow> ?e u \<le> NoWork c)"
    by auto
  finally have nw: "(fiberExpirationTime (fibers h' w) = NoWork c)
                      = (\<forall>u \<in> set ns \<union> set cs. ?e u < r \<longrightarrow> ?e u \<le> NoWork c)"
    unfolding t' [symmetric] .
  have m': "memoizedState (fibers h' w) =
               stateAfter c w queue props instance h (filter (\<lambda>u. r \<le> ?e u) cs)
                 (stateAfter c w queue props instance h (filter (\<lambda>u. r \<le> ?e u) ns)
                    (baseState (queues h queue)))"
    using m unfolding n .
  have f': "firstUpdate (queues h' (workingQueue w queue h)) = find (\<lambda>u. ?e u < r) ns"
    using f unfolding i .
  have g': "firstCapturedUpdate (queues h' (workingQueue w queue h)) = find (\<lambda>u. ?e u < r) cs"
    using g unfolding i .
  show ?thesis
    by (intro exI [of _ h'] conjI run m' f' g' t' nw)
qed

theorem skipped_iff_below_render_time_witness:
  "chain (nextOf digitsHeap) (firstUpdate (queues digitsHeap 0)) [2, 3, 4, 5]
   \<and> chain (nextOf digitsHeap) (workingCaptured 0 0 digitsHeap) []
   \<and> NoWork sampleConstants = 0
   \<and> (\<exists>h'. processUpdateQueue sampleConstants 0 0 JSNull JSNull 2 digitsHeap = Some h'
          \<and> memoizedState (fibers h' 0) = JSNumber 13
          \<and> firstUpdate (queues h' 0) = Some 3
          \<and> fiberExpirationTime (fibers h' 0) = 1)
   \<and> (\<exists>h'. processUpdateQueue sampleConstants 0 0 JSNull JSNull 1 digitsHeap = Some h'
          \<and> firstUpdate (queues h' 0) = None
          \<and> fiberExpirationTime (fibers h' 0) = 0)"
proof -
  have cs: "chain (nextOf digitsHeap) (workingCaptured 0 0 digitsHeap) []"
    by (simp add: workingCaptured_None digitsHeap_queue)
  have wq: "workingQueue 0 0 digitsHeap = 0"
    by (simp add: workingQueue_def ensureWorkInProgressQueueIsAClone_def digitsHeap_queue)
  have nw: "NoWork sampleConstants = 0" by (simp add: sampleConstants_def)
  have f: "find (\<lambda>u. expirationTime (updates digitsHeap u) < 2) [2, 3, 4, 5] = Some 3"
    by (simp add: digitsHeap_records)
  have fl: "filter (\<lambda>u. 2 \<le> expirationTime (updates digitsHeap u)) [2, 3, 4, 5] = [2, 4]"
    by (simp add: digitsHeap_records)
  have sk: "Max (insert (NoWork sampleConstants)
                  ((\<lambda>u. expirationTime (updates digitsHeap u))
                     ` set (filter (\<lambda>u. expirationTime (updates digitsHeap u) < 2) ([2, 3, 4, 5] @ []))))
              = 1"
    by (simp add: digitsHeap_records nw)
  have s: "stateAfter sampleConstants 0 0 JSNull JSNull digitsHeap [2, 4] (JSNumber 0) = JSNumber 13"
    by (simp add: getStateFromUpdate_def digitsHeap_records appendDigit_def)
  from skipped_iff_below_render_time [OF digitsHeap_chain cs, of sampleConstants JSNull JSNull 2]
  obtain h' where r: "processUpdateQueue sampleConstants 0 0 JSNull JSNull 2 digitsHeap = Some h'"
    and m: "memoizedState (fibers h' 0) =
               stateAfter sampleConstants 0 0 JSNull JSNull digitsHeap
                 (filter (\<lambda>u. 2 \<le> expirationTime (updates digitsHeap u)) [])
                 (stateAfter sampleConstants 0 0 JSNull JSNull digitsHeap
                    (filter (\<lambda>u. 2 \<le> expirationTime (updates digitsHeap u)) [2, 3, 4, 5])
                    (baseState (queues digitsHeap 0)))"
    and fu: "firstUpdate (queues h' (workingQueue 0 0 digitsHeap))
               = find (\<lambda>u. expirationTime (updates digitsHeap u) < 2) [2, 3, 4, 5]"
    and ex: "fiberExpirationTime (fibers h' 0)
               = Max (insert (NoWork sampleConstants)
                        ((\<lambda>u. expirationTime (updates digitsHeap u))
                           ` set (filter (\<lambda>u. expirationTime (updates digitsHeap u) < 2) ([2, 3, 4, 5] @ []))))"
    by (elim exE conjE) (rule that)
  have "memoizedState (fibers h' 0) =
          stateAfter sampleConstants 0 0 JSNull JSNull digitsHeap []
            (stateAfter sampleConstants 0 0 JSNull JSNull digitsHeap [2, 4] (JSNumber 0))"
    using m unfolding fl digitsHeap_queue by (simp only: filter.simps(1))
  then have a: "memoizedState (fibers h' 0) = JSNumber 13"
    unfolding s by (simp only: stateAfter_simps(1))
  have b: "firstUpdate (queues h' 0) = Some 3" using fu unfolding wq f .
  have c: "fiberExpirationTime (fibers h' 0) = 1" using ex unfolding sk .
  have one: "\<exists>h'. processUpdateQueue sampleConstants 0 0 JSNull JSNull 2 digitsHeap = Some h'
          \<and> memoizedState (fibers h' 0) = JSNumber 13
          \<and> firstUpdate (queues h' 0) = Some 3
          \<and> fiberExpirationTime (fibers h' 0) = 1"
    by (intro exI [of _ h'] conjI r a b c)
  have f1: "find (\<lambda>u. expirationTime (updates digitsHeap u) < 1) [2, 3, 4, 5] = None"
    by (simp add: digitsHeap_records)
  have al: "\<forall>u \<in> set [2, 3, 4, 5] \<union> set [].
              expirationTime (updates digitsHeap u) < 1
                \<longrightarrow> expirationTime (updates digitsHeap u) \<le> NoWork sampleConstants"
    by (simp add: digitsHeap_records)
  from skipped_iff_below_render_time [OF digitsHeap_chain cs, of sampleConstants JSNull JSNull 1]
  obtain g' where r1: "processUpdateQueue sampleConstants 0 0 JSNull JSNull 1 digitsHeap = Some g'"
    and fu1: "firstUpdate (queues g' (workingQueue 0 0 digitsHeap))
               = find (\<lambda>u. expirationTime (updates digitsHeap u) < 1) [2, 3, 4, 5]"
    and iff: "(fiberExpirationTime (fibers g' 0) = NoWork sampleConstants)
                = (\<forall>u \<in> set [2, 3, 4, 5] \<union> set [].
                     expirationTime (updates digitsHeap u) < 1
                       \<longrightarrow> expirationTime (updates digitsHeap u) \<le> NoWork sampleConstants)"
    by (elim exE conjE) (rule that)
  have b1: "firstUpdate (queues g' 0) = None" using fu1 unfolding wq f1 .
  have "fiberExpirationTime (fibers g' 0) = NoWork sampleConstants"
    using iff al by (rule iffD2)
  then have c1: "fiberExpirationTime (fibers g' 0) = 0" unfolding nw .
  have two: "\<exists>h'. processUpdateQueue sampleConstants 0 0 JSNull JSNull 1 digitsHeap = Some h'
          \<and> firstUpdate (queues h' 0) = None
          \<and> fiberExpirationTime (fibers h' 0) = 0"
    by (intro exI [of _ g'] conjI r1 b1 c1)
  show ?thesis by (intro conjI digitsHeap_chain cs nw one two)
qed

lemma pairedHeap_simps:
  "updates pairedHeap = updates digitsHeap"
  "queues pairedHeap 0 = queues digitsHeap 0"
  "alternate (fibers pairedHeap 0) = Some 2"
  "updateQueue (fibers pairedHeap 0) = Some 0"
  "updateQueue (fibers pairedHeap 2) = Some 0"
  "queueCount pairedHeap = 2"
proof -
  have "queueCount digitsHeap = Suc 0"
    by (simp add: digitsHeap_def enqueueUpdate_def enqueueUpdateQueues_def
          appendUpdateToQueue_def createUpdateQueue_def Let_def newQueue_def setFiber_def
          setQueue_def setUpdate_def)
  then show "updates pairedHeap = updates digitsHeap"
    "queues pairedHeap 0 = queues digitsHeap 0"
    "alternate (fibers pairedHeap 0) = Some 2"
    "updateQueue (fibers pairedHeap 0) = Some 0"
    "updateQueue (fibers pairedHeap 2) = Some 0"
    "queueCount pairedHeap = 2"
    by (simp_all add: pairedHeap_def digitsHeap_queue)
qed

lemma ensure_clone:
  assumes "alternate (fibers h w) = Some current"
    and "updateQueue (fibers h current) = Some queue"
  shows "ensureWorkInProgressQueueIsAClone w queue h =
           (queueCount h,
            setFiber w (\<lambda>F. F\<lparr>updateQueue := Some (queueCount h)\<rparr>)
              (snd (newQueue (cloneUpdateQueue (queues h queue)) h)))"
  using assms by (simp add: ensureWorkInProgressQueueIsAClone_def case_prod_beta)

lemma find_None_takeWhile: "find P xs = None \<Longrightarrow> takeWhile (\<lambda>x. \<not> P x) xs = xs"
  by (induction xs) (auto split: if_splits)

text \<open>
  C10. When the queue of the work-in-progress fiber is the very queue object of its
  current fiber, \<open>enqueueCapturedUpdate\<close> and \<open>processUpdateQueue\<close> first give the
  work-in-progress fiber a new queue object and work on it. The new object is a clone:
  it starts with the base state and the first and last pointers of the list of updates
  of the current queue, an empty list of captured updates and empty effect lists. The
  queue object of the current fiber is left exactly as it was (base state, heads and
  tails of the list of updates and of the list of captured updates, effect lists), the
  current fiber still points to it, and the captured update is in the clone only. A
  pass computes its result from the base state and the list of the current queue and
  leaves the remaining list in the clone. \<open>enqueueCapturedUpdate\<close> changes no update
  record; a pass changes no field of an update record but \<open>nextEffect\<close>.
\<close>

theorem workInProgress_queue_cloned_before_write:
  assumes "alternate (fibers h w) = Some current"
    and "updateQueue (fibers h w) = Some queue"
    and "updateQueue (fibers h current) = Some queue"
    and "queue < queueCount h"
    and "chain (nextOf h) (firstUpdate (queues h queue)) ns"
  shows "fst (ensureWorkInProgressQueueIsAClone w queue h) = queueCount h
       \<and> queues (snd (ensureWorkInProgressQueueIsAClone w queue h)) (queueCount h)
           = \<lparr>baseState = baseState (queues h queue),
              firstUpdate = firstUpdate (queues h queue), lastUpdate = lastUpdate (queues h queue),
              firstCapturedUpdate = None, lastCapturedUpdate = None,
              firstEffect = None, lastEffect = None,
              firstCapturedEffect = None, lastCapturedEffect = None\<rparr>
       \<and> queues (snd (ensureWorkInProgressQueueIsAClone w queue h)) queue = queues h queue
       \<and> queues (enqueueCapturedUpdate w u h) queue = queues h queue
       \<and> updates (enqueueCapturedUpdate w u h) = updates h
       \<and> updateQueue (fibers (enqueueCapturedUpdate w u h) w) = Some (queueCount h)
       \<and> queues (enqueueCapturedUpdate w u h) (queueCount h)
           = \<lparr>baseState = baseState (queues h queue),
              firstUpdate = firstUpdate (queues h queue), lastUpdate = lastUpdate (queues h queue),
              firstCapturedUpdate = Some u, lastCapturedUpdate = Some u,
              firstEffect = None, lastEffect = None,
              firstCapturedEffect = None, lastCapturedEffect = None\<rparr>
       \<and> (current \<noteq> w \<longrightarrow> fibers (enqueueCapturedUpdate w u h) current = fibers h current)
       \<and> (\<exists>h'. processUpdateQueue c w queue props instance r h = Some h'
              \<and> queues h' queue = queues h queue
              \<and> updateQueue (fibers h' w) = Some (queueCount h)
              \<and> (current \<noteq> w \<longrightarrow> fibers h' current = fibers h current)
              \<and> sameRecords h h'
              \<and> memoizedState (fibers h' w)
                  = stateAfter c w queue props instance h
                      (filter (\<lambda>u. \<not> insufficient h r u) ns) (baseState (queues h queue))
              \<and> baseState (queues h' (queueCount h))
                  = stateAfter c w queue props instance h
                      (takeWhile (\<lambda>u. \<not> insufficient h r u) ns) (baseState (queues h queue))
              \<and> firstUpdate (queues h' (queueCount h)) = find (insufficient h r) ns
              \<and> lastUpdate (queues h' (queueCount h))
                  = (if find (insufficient h r) ns = None then None else lastUpdate (queues h queue))
              \<and> firstCapturedUpdate (queues h' (queueCount h)) = None
              \<and> lastCapturedUpdate (queues h' (queueCount h)) = None)"
proof -
  have E: "ensureWorkInProgressQueueIsAClone w queue h =
           (queueCount h,
            setFiber w (\<lambda>F. F\<lparr>updateQueue := Some (queueCount h)\<rparr>)
              (snd (newQueue (cloneUpdateQueue (queues h queue)) h)))"
    using assms(1,3) by (rule ensure_clone)
  have ne: "queue \<noteq> queueCount h" using assms(4) by simp
  let ?h = "enqueueCapturedUpdate w u h"
  have k1: "fst (ensureWorkInProgressQueueIsAClone w queue h) = queueCount h"
    by (simp add: E)
  have k2: "queues (snd (ensureWorkInProgressQueueIsAClone w queue h)) (queueCount h)
           = \<lparr>baseState = baseState (queues h queue),
              firstUpdate = firstUpdate (queues h queue), lastUpdate = lastUpdate (queues h queue),
              firstCapturedUpdate = None, lastCapturedUpdate = None,
              firstEffect = None, lastEffect = None,
              firstCapturedEffect = None, lastCapturedEffect = None\<rparr>"
    by (simp add: E cloneUpdateQueue_def)
  have k3: "queues (snd (ensureWorkInProgressQueueIsAClone w queue h)) queue = queues h queue"
    using ne by (simp add: E)
  have a: "queues ?h queue = queues h queue"
    using ne assms(2) by (simp add: enqueueCapturedUpdate_def E cloneUpdateQueue_def)
  have b: "updates ?h = updates h"
    using assms(2) by (simp add: enqueueCapturedUpdate_def E cloneUpdateQueue_def)
  have d: "updateQueue (fibers ?h w) = Some (queueCount h)"
    using assms(2) by (simp add: enqueueCapturedUpdate_def E cloneUpdateQueue_def)
  have e: "queues ?h (queueCount h)
           = \<lparr>baseState = baseState (queues h queue),
              firstUpdate = firstUpdate (queues h queue), lastUpdate = lastUpdate (queues h queue),
              firstCapturedUpdate = Some u, lastCapturedUpdate = Some u,
              firstEffect = None, lastEffect = None,
              firstCapturedEffect = None, lastCapturedEffect = None\<rparr>"
    using assms(2) by (simp add: enqueueCapturedUpdate_def E cloneUpdateQueue_def)
  have g: "current \<noteq> w \<longrightarrow> fibers ?h current = fibers h current"
    using assms(2) by (simp add: enqueueCapturedUpdate_def E cloneUpdateQueue_def)
  have wq: "workingQueue w queue h = queueCount h"
    by (simp add: workingQueue_def E)
  have cs: "chain (nextOf h) (workingCaptured w queue h) []"
    by (simp add: workingCaptured_def E cloneUpdateQueue_def)
  let ?f = "\<lambda>xs. stateAfter c w queue props instance h xs (baseState (queues h queue))"
  from processUpdateQueue_run [OF assms(5) cs, of c props "instance" r]
  obtain h' where run: "processUpdateQueue c w queue props instance r h = Some h'"
    and sr: "sameRecords h h'"
    and ms: "memoizedState (fibers h' w) =
       stateAfter c w queue props instance h (filter (\<lambda>u. \<not> insufficient h r u) [])
         (?f (filter (\<lambda>u. \<not> insufficient h r u) ns))"
    and fu: "firstUpdate (queues h' (workingQueue w queue h)) = find (insufficient h r) ns"
    and fc: "firstCapturedUpdate (queues h' (workingQueue w queue h)) = find (insufficient h r) []"
    and bs: "baseState (queues h' (workingQueue w queue h)) =
       (if find (insufficient h r) ns \<noteq> None
        then ?f (takeWhile (\<lambda>u. \<not> insufficient h r u) ns)
        else if find (insufficient h r) [] \<noteq> None
        then stateAfter c w queue props instance h (takeWhile (\<lambda>u. \<not> insufficient h r u) [])
               (?f (filter (\<lambda>u. \<not> insufficient h r u) ns))
        else memoizedState (fibers h' w))"
    and lu: "lastUpdate (queues h' (workingQueue w queue h)) =
       (if find (insufficient h r) ns = None then None else lastUpdate (queues h queue))"
    and lc: "find (insufficient h r) [] = None
               \<longrightarrow> lastCapturedUpdate (queues h' (workingQueue w queue h)) = None"
    and oq: "\<forall>q'. q' \<noteq> workingQueue w queue h \<longrightarrow> queues h' q' = queues h q'"
    and of: "\<forall>x. x \<noteq> w \<longrightarrow> fibers h' x = fibers h x"
    and uq: "\<forall>x. updateQueue (fibers h' x)
                 = updateQueue (fibers (snd (ensureWorkInProgressQueueIsAClone w queue h)) x)"
    by (elim exE conjE) (rule that)
  have p1: "queues h' queue = queues h queue" using oq ne unfolding wq by blast
  have p2: "updateQueue (fibers h' w) = Some (queueCount h)" using uq by (simp add: E)
  have p3: "current \<noteq> w \<longrightarrow> fibers h' current = fibers h current" using of by blast
  have p4: "memoizedState (fibers h' w) = ?f (filter (\<lambda>u. \<not> insufficient h r u) ns)"
    using ms by simp
  have p5: "baseState (queues h' (queueCount h)) = ?f (takeWhile (\<lambda>u. \<not> insufficient h r u) ns)"
  proof (cases "find (insufficient h r) ns")
    case None
    have fl: "filter (\<lambda>u. \<not> insufficient h r u) ns = ns" using None by (rule find_None_filter)
    have tw: "takeWhile (\<lambda>u. \<not> insufficient h r u) ns = ns"
      using None by (rule find_None_takeWhile)
    have "baseState (queues h' (queueCount h)) = memoizedState (fibers h' w)"
      using bs None unfolding wq by simp
    then show ?thesis unfolding p4 fl tw .
  next
    case (Some x)
    then show ?thesis using bs unfolding wq by simp
  qed
  have p6: "firstUpdate (queues h' (queueCount h)) = find (insufficient h r) ns"
    using fu unfolding wq .
  have p7: "lastUpdate (queues h' (queueCount h))
              = (if find (insufficient h r) ns = None then None else lastUpdate (queues h queue))"
    using lu unfolding wq .
  have p8: "firstCapturedUpdate (queues h' (queueCount h)) = None"
    using fc unfolding wq by simp
  have p9: "lastCapturedUpdate (queues h' (queueCount h)) = None"
    using lc unfolding wq by simp
  have "\<exists>h'. processUpdateQueue c w queue props instance r h = Some h'
              \<and> queues h' queue = queues h queue
              \<and> updateQueue (fibers h' w) = Some (queueCount h)
              \<and> (current \<noteq> w \<longrightarrow> fibers h' current = fibers h current)
              \<and> sameRecords h h'
              \<and> memoizedState (fibers h' w) = ?f (filter (\<lambda>u. \<not> insufficient h r u) ns)
              \<and> baseState (queues h' (queueCount h)) = ?f (takeWhile (\<lambda>u. \<not> insufficient h r u) ns)
              \<and> firstUpdate (queues h' (queueCount h)) = find (insufficient h r) ns
              \<and> lastUpdate (queues h' (queueCount h))
                  = (if find (insufficient h r) ns = None then None else lastUpdate (queues h queue))
              \<and> firstCapturedUpdate (queues h' (queueCount h)) = None
              \<and> lastCapturedUpdate (queues h' (queueCount h)) = None"
    by (intro exI [of _ h'] conjI run p1 p2 p3 sr p4 p5 p6 p7 p8 p9)
  then show ?thesis by (intro conjI k1 k2 k3 a b d e g)
qed

theorem workInProgress_queue_cloned_before_write_witness:
  "alternate (fibers pairedHeap 0) = Some 2
   \<and> updateQueue (fibers pairedHeap 0) = Some 0
   \<and> updateQueue (fibers pairedHeap 2) = Some 0
   \<and> 0 < queueCount pairedHeap
   \<and> chain (nextOf pairedHeap) (firstUpdate (queues pairedHeap 0)) [2, 3, 4, 5]
   \<and> fst (ensureWorkInProgressQueueIsAClone 0 0 pairedHeap) = 2
   \<and> baseState (queues (snd (ensureWorkInProgressQueueIsAClone 0 0 pairedHeap)) 2) = JSNumber 0
   \<and> firstUpdate (queues (snd (ensureWorkInProgressQueueIsAClone 0 0 pairedHeap)) 2) = Some 2
   \<and> lastUpdate (queues (snd (ensureWorkInProgressQueueIsAClone 0 0 pairedHeap)) 2) = Some 5
   \<and> queues (enqueueCapturedUpdate 0 6 pairedHeap) 0 = queues pairedHeap 0
   \<and> updateQueue (fibers (enqueueCapturedUpdate 0 6 pairedHeap) 0) = Some 2
   \<and> firstUpdate (queues (enqueueCapturedUpdate 0 6 pairedHeap) 2) = Some 2
   \<and> firstCapturedUpdate (queues (enqueueCapturedUpdate 0 6 pairedHeap) 2) = Some 6
   \<and> fibers (enqueueCapturedUpdate 0 6 pairedHeap) 2 = fibers pairedHeap 2
   \<and> (\<exists>h'. processUpdateQueue sampleConstants 0 0 JSNull JSNull 2 pairedHeap = Some h'
          \<and> queues h' 0 = queues pairedHeap 0
          \<and> updateQueue (fibers h' 0) = Some 2
          \<and> fibers h' 2 = fibers pairedHeap 2
          \<and> memoizedState (fibers h' 0) = JSNumber 13
          \<and> baseState (queues h' 2) = JSNumber 1
          \<and> firstUpdate (queues h' 2) = Some 3
          \<and> lastUpdate (queues h' 2) = Some 5)"
proof -
  have q: "0 < queueCount pairedHeap" by (simp add: pairedHeap_simps)
  have n: "nextOf pairedHeap = nextOf digitsHeap"
    by (rule nextOf_updates) (simp add: pairedHeap_simps)
  have ch: "chain (nextOf pairedHeap) (firstUpdate (queues pairedHeap 0)) [2, 3, 4, 5]"
    using digitsHeap_chain unfolding n pairedHeap_simps .
  have ins: "insufficient pairedHeap 2 = insufficient digitsHeap 2"
    by (rule ext) (simp add: insufficient_def pairedHeap_simps)
  have fl: "filter (\<lambda>u. \<not> insufficient pairedHeap 2 u) [2, 3, 4, 5] = [2, 4]"
    "takeWhile (\<lambda>u. \<not> insufficient pairedHeap 2 u) [2, 3, 4, 5] = [2]"
    "find (insufficient pairedHeap 2) [2, 3, 4, 5] = Some 3"
    unfolding ins by (simp_all add: insufficient_def digitsHeap_records)
  have st: "stateAfter sampleConstants 0 0 JSNull JSNull pairedHeap [2, 4] (JSNumber 0) = JSNumber 13"
    "stateAfter sampleConstants 0 0 JSNull JSNull pairedHeap [2] (JSNumber 0) = JSNumber 1"
    by (simp_all add: getStateFromUpdate_def pairedHeap_simps digitsHeap_records appendDigit_def)
  have qs: "baseState (queues pairedHeap 0) = JSNumber 0" "firstUpdate (queues pairedHeap 0) = Some 2"
    "lastUpdate (queues pairedHeap 0) = Some 5"
    by (simp_all add: pairedHeap_simps digitsHeap_queue)
  note T = workInProgress_queue_cloned_before_write
         [OF pairedHeap_simps(3) pairedHeap_simps(4) pairedHeap_simps(5) q ch,
          of 6 sampleConstants JSNull JSNull 2, unfolded pairedHeap_simps(6) fl qs st]
  note k1 = T [THEN conjunct1]
  note T2 = T [THEN conjunct2]
  note k2 = T2 [THEN conjunct1]
  note T3 = T2 [THEN conjunct2, THEN conjunct2]
  note a = T3 [THEN conjunct1]
  note T4 = T3 [THEN conjunct2, THEN conjunct2]
  note b = T4 [THEN conjunct1]
  note T5 = T4 [THEN conjunct2]
  note e = T5 [THEN conjunct1]
  note T6 = T5 [THEN conjunct2]
  note g = T6 [THEN conjunct1]
  note p = T6 [THEN conjunct2]
  have c1: "baseState (queues (snd (ensureWorkInProgressQueueIsAClone 0 0 pairedHeap)) 2) = JSNumber 0"
    and c2: "firstUpdate (queues (snd (ensureWorkInProgressQueueIsAClone 0 0 pairedHeap)) 2) = Some 2"
    and c3: "lastUpdate (queues (snd (ensureWorkInProgressQueueIsAClone 0 0 pairedHeap)) 2) = Some 5"
    unfolding k2 by simp_all
  have e1: "firstUpdate (queues (enqueueCapturedUpdate 0 6 pairedHeap) 2) = Some 2"
    and e2: "firstCapturedUpdate (queues (enqueueCapturedUpdate 0 6 pairedHeap) 2) = Some 6"
    unfolding e by simp_all
  have g': "fibers (enqueueCapturedUpdate 0 6 pairedHeap) 2 = fibers pairedHeap 2"
    using g by simp
  from p obtain h' where r: "processUpdateQueue sampleConstants 0 0 JSNull JSNull 2 pairedHeap = Some h'"
    and p1: "queues h' 0 = queues pairedHeap 0"
    and p2: "updateQueue (fibers h' 0) = Some 2"
    and p3: "2 \<noteq> (0::nat) \<longrightarrow> fibers h' 2 = fibers pairedHeap 2"
    and p4: "memoizedState (fibers h' 0) = JSNumber 13"
    and p5: "baseState (queues h' 2) = JSNumber 1"
    and p6: "firstUpdate (queues h' 2) = Some 3"
    and p7: "lastUpdate (queues h' 2) = (if Some (3::nat) = None then None else Some 5)"
    by (elim exE conjE) (rule that)
  have p3': "fibers h' 2 = fibers pairedHeap 2" using p3 by simp
  have p7': "lastUpdate (queues h' 2) = Some 5" using p7 by simp
  have e': "\<exists>h'. processUpdateQueue sampleConstants 0 0 JSNull JSNull 2 pairedHeap = Some h'
          \<and> queues h' 0 = queues pairedHeap 0
          \<and> updateQueue (fibers h' 0) = Some 2
          \<and> fibers h' 2 = fibers pairedHeap 2
          \<and> memoizedState (fibers h' 0) = JSNumber 13
          \<and> baseState (queues h' 2) = JSNumber 1
          \<and> firstUpdate (queues h' 2) = Some 3
          \<and> lastUpdate (queues h' 2) = Some 5"
    by (intro exI [of _ h'] conjI r p1 p2 p3' p4 p5 p6 p7')
  show ?thesis
    by (intro conjI pairedHeap_simps(3) pairedHeap_simps(4) pairedHeap_simps(5) q ch
          k1 c1 c2 c3 a b e1 e2 g' e')
qed

lemma chain_dropWhile:
  "chain nx p xs \<Longrightarrow> chain nx (find P xs) (dropWhile (\<lambda>x. \<not> P x) xs)"
  by (induction xs arbitrary: p) auto

lemma find_None_dropWhile: "find P xs = None \<Longrightarrow> dropWhile (\<lambda>x. \<not> P x) xs = []"
  by (induction xs) (auto split: if_splits)

lemma passes_state:
  assumes "chain (nextOf h) (firstUpdate (queues h queue)) ns"
    and "workingCaptured w queue h = None"
    and "\<forall>u \<in> set ns. r \<le> expirationTime (updates h u)"
  shows "\<exists>h1. processPasses c w queue props instance (rs @ [r]) h = Some h1
           \<and> memoizedState (fibers h1 w)
               = stateAfter c w queue props instance h ns (baseState (queues h queue))"
  using assms
proof (induction rs arbitrary: h queue ns)
  case Nil
  have cs: "chain (nextOf h) (workingCaptured w queue h) []" using Nil.prems(2) by simp
  from processUpdateQueue_run [OF Nil.prems(1) cs, of c props "instance" r]
  obtain h' where run: "processUpdateQueue c w queue props instance r h = Some h'"
    and m: "memoizedState (fibers h' w) =
       stateAfter c w queue props instance h (filter (\<lambda>u. \<not> insufficient h r u) [])
         (stateAfter c w queue props instance h (filter (\<lambda>u. \<not> insufficient h r u) ns)
            (baseState (queues h queue)))"
    by (elim exE conjE) (rule that)
  have "filter (\<lambda>u. \<not> insufficient h r u) ns = ns"
    using Nil.prems(3) by (intro filter_True) (auto simp add: insufficient_def)
  then have "memoizedState (fibers h' w)
               = stateAfter c w queue props instance h ns (baseState (queues h queue))"
    using m by simp
  then show ?case using run by simp
next
  case (Cons r0 rs)
  let ?q = "workingQueue w queue h"
  let ?ns = "dropWhile (\<lambda>u. \<not> insufficient h r0 u) ns"
  have cs: "chain (nextOf h) (workingCaptured w queue h) []" using Cons.prems(2) by simp
  from processUpdateQueue_run [OF Cons.prems(1) cs, of c props "instance" r0]
  obtain h' where run: "processUpdateQueue c w queue props instance r0 h = Some h'"
    and sr: "sameRecords h h'"
    and f: "firstUpdate (queues h' ?q) = find (insufficient h r0) ns"
    and g: "firstCapturedUpdate (queues h' ?q) = find (insufficient h r0) []"
    and b: "baseState (queues h' ?q) =
       (if find (insufficient h r0) ns \<noteq> None
        then stateAfter c w queue props instance h (takeWhile (\<lambda>u. \<not> insufficient h r0 u) ns)
               (baseState (queues h queue))
        else if find (insufficient h r0) [] \<noteq> None
        then stateAfter c w queue props instance h (takeWhile (\<lambda>u. \<not> insufficient h r0 u) [])
               (stateAfter c w queue props instance h (filter (\<lambda>u. \<not> insufficient h r0 u) ns)
                  (baseState (queues h queue)))
        else memoizedState (fibers h' w))"
    and m: "memoizedState (fibers h' w) =
       stateAfter c w queue props instance h (filter (\<lambda>u. \<not> insufficient h r0 u) [])
         (stateAfter c w queue props instance h (filter (\<lambda>u. \<not> insufficient h r0 u) ns)
            (baseState (queues h queue)))"
    by (elim exE conjE) (rule that)
  have "chain (nextOf h) (find (insufficient h r0) ns) ?ns"
    using Cons.prems(1) by (rule chain_dropWhile)
  then have 1: "chain (nextOf h') (firstUpdate (queues h' ?q)) ?ns"
    unfolding f using sr by (simp add: chain_cong)
  have 2: "workingCaptured w ?q h' = None"
    using g by (intro workingCaptured_None) simp
  have 3: "\<forall>u \<in> set ?ns. r \<le> expirationTime (updates h' u)"
    using Cons.prems(3) sameRecords_fields(1) [OF sr] by (auto dest: set_dropWhileD)
  from Cons.IH [OF 1 2 3]
  obtain h1 where p: "processPasses c w ?q props instance (rs @ [r]) h' = Some h1"
    and s: "memoizedState (fibers h1 w)
              = stateAfter c w ?q props instance h' ?ns (baseState (queues h' ?q))"
    by blast
  have s': "stateAfter c w ?q props instance h' ?ns v = stateAfter c w queue props instance h ?ns v" for v
    using sr by (rule stateAfter_cong)
  have "stateAfter c w queue props instance h ?ns (baseState (queues h' ?q))
          = stateAfter c w queue props instance h ns (baseState (queues h queue))"
  proof (cases "find (insufficient h r0) ns = None")
    case True
    then have d: "?ns = []" and fl: "filter (\<lambda>u. \<not> insufficient h r0 u) ns = ns"
      by (simp_all add: find_None_dropWhile find_None_filter)
    have "baseState (queues h' ?q)
            = stateAfter c w queue props instance h ns (baseState (queues h queue))"
      using b m True unfolding fl by simp
    then show ?thesis unfolding d by simp
  next
    case False
    let ?tw = "takeWhile (\<lambda>u. \<not> insufficient h r0 u) ns"
    have "stateAfter c w queue props instance h ?ns (baseState (queues h' ?q))
          = stateAfter c w queue props instance h ?ns
              (stateAfter c w queue props instance h ?tw (baseState (queues h queue)))"
      using b False by simp
    also have "\<dots> = stateAfter c w queue props instance h (?tw @ ?ns) (baseState (queues h queue))"
      by (simp only: stateAfter_append)
    also have "\<dots> = stateAfter c w queue props instance h ns (baseState (queues h queue))"
      by simp
    finally show ?thesis .
  qed
  then have "memoizedState (fibers h1 w)
               = stateAfter c w queue props instance h ns (baseState (queues h queue))"
    using s s' by simp
  then show ?case using run p by simp
qed

lemma mixedHeap_simps:
  "updates mixedHeap = updates recordsHeap"
  "baseState (queues mixedHeap 0) = JSNumber 0"
  "firstUpdate (queues mixedHeap 0) = Some 3"
  "firstCapturedUpdate (queues mixedHeap 0) = Some 6"
  "alternate (fibers mixedHeap 0) = None"
proof -
  have "updateQueue (fibers oneRecordHeap 0) = Some 0"
    "lastCapturedUpdate (queues oneRecordHeap 0) = None"
    by (simp_all add: oneRecordHeap_def enqueueUpdate_def enqueueUpdateQueues_def
          appendUpdateToQueue_def createUpdateQueue_def case_prod_beta Let_def)
  then show "updates mixedHeap = updates recordsHeap"
    "baseState (queues mixedHeap 0) = JSNumber 0"
    "firstUpdate (queues mixedHeap 0) = Some 3"
    "firstCapturedUpdate (queues mixedHeap 0) = Some 6"
    "alternate (fibers mixedHeap 0) = None"
    by (simp_all add: mixedHeap_def enqueueCapturedUpdate_def oneRecordHeap_simps
          ensureWorkInProgressQueueIsAClone_def)
qed

lemma mixedHeap_chains:
  "chain (nextOf mixedHeap) (firstUpdate (queues mixedHeap 0)) [3]"
  "chain (nextOf mixedHeap) (workingCaptured 0 0 mixedHeap) [6]"
  by (simp_all add: mixedHeap_simps nextOf_def workingCaptured_def
        ensureWorkInProgressQueueIsAClone_def capturedRecord_def createUpdate_def)

lemma mixedHeap_states:
  "stateAfter sampleConstants 0 0 JSNull JSNull mixedHeap [3] (JSNumber 0) = JSNumber 2"
  "stateAfter sampleConstants 0 0 JSNull JSNull mixedHeap [6] (JSNumber 2)
     = JSObject [''seen'' \<mapsto> JSNumber 2]"
  by (simp_all add: getStateFromUpdate_def updateStateCase_def objectAssign_def mixedHeap_simps
        appendDigit_def capturedRecord_def wrapSeen_def)

lemma mixedHeap_effects:
  "firstEffect (queues mixedHeap 0) = None" "lastEffect (queues mixedHeap 0) = None"
  "firstCapturedEffect (queues mixedHeap 0) = None" "lastCapturedEffect (queues mixedHeap 0) = None"
  "callback (updates mixedHeap 3) = CallbackValue JSNull"
  "callback (updates mixedHeap 6) = CallbackValue JSNull"
proof -
  have "updateQueue (fibers oneRecordHeap 0) = Some 0"
    "lastCapturedUpdate (queues oneRecordHeap 0) = None"
    "firstEffect (queues oneRecordHeap 0) = None" "lastEffect (queues oneRecordHeap 0) = None"
    "firstCapturedEffect (queues oneRecordHeap 0) = None"
    "lastCapturedEffect (queues oneRecordHeap 0) = None"
    by (simp_all add: oneRecordHeap_def enqueueUpdate_def enqueueUpdateQueues_def
          appendUpdateToQueue_def createUpdateQueue_def case_prod_beta Let_def)
  then show "firstEffect (queues mixedHeap 0) = None" "lastEffect (queues mixedHeap 0) = None"
    "firstCapturedEffect (queues mixedHeap 0) = None"
    "lastCapturedEffect (queues mixedHeap 0) = None"
    "callback (updates mixedHeap 3) = CallbackValue JSNull"
    "callback (updates mixedHeap 6) = CallbackValue JSNull"
    by (simp_all add: mixedHeap_def enqueueCapturedUpdate_def oneRecordHeap_simps
          ensureWorkInProgressQueueIsAClone_def capturedRecord_def createUpdate_def)
qed

lemma joinCapturedUpdates_None:
  "firstCapturedUpdate (queues h q) = None \<Longrightarrow> joinCapturedUpdates q h = h"
  by (simp add: joinCapturedUpdates_def)

text \<open>
  Where the list of captured updates is empty (for the queue object that the pass works
  on), the code does what its header comment says: passes at any expiration times,
  followed by a pass at an expiration time \<open>r\<close> at which every record is eligible, each
  later pass on the queue object left by the pass before it, return and yield the same
  final state as one pass at \<open>r\<close>, namely all records applied in their order to the
  base state.
\<close>

lemma passes_converge:
  assumes "chain (nextOf h) (firstUpdate (queues h queue)) ns"
    and "workingCaptured w queue h = None"
    and "\<forall>u \<in> set ns. r \<le> expirationTime (updates h u)"
  shows "\<exists>h1 h2. processPasses c w queue props instance (rs @ [r]) h = Some h1
           \<and> processUpdateQueue c w queue props instance r h = Some h2
           \<and> memoizedState (fibers h1 w) = memoizedState (fibers h2 w)
           \<and> memoizedState (fibers h2 w)
               = stateAfter c w queue props instance h ns (baseState (queues h queue))"
proof -
  from passes_state [OF assms, of c props "instance" rs]
  obtain h1 where 1: "processPasses c w queue props instance (rs @ [r]) h = Some h1"
    and 2: "memoizedState (fibers h1 w)
              = stateAfter c w queue props instance h ns (baseState (queues h queue))"
    by blast
  from passes_state [OF assms, of c props "instance" "[]"]
  obtain h2 where 3: "processPasses c w queue props instance [r] h = Some h2"
    and 4: "memoizedState (fibers h2 w)
              = stateAfter c w queue props instance h ns (baseState (queues h queue))"
    by auto
  have 5: "processUpdateQueue c w queue props instance r h = Some h2"
    using 3 by (simp split: option.splits)
  show ?thesis using 1 2 4 5 by simp
qed

text \<open>
  C1. The code breaks the claim, and what its own comments promise (``the final state
  is always the same''; captured updates are kept ``so that they are rebased and not
  dropped once we process the queue again at the lower priority''), for a queue that
  also holds a captured update. The queue of \<open>mixedHeap\<close> has base state 0, the update
  3 (expiration time 1, appending the digit 2) and the captured update 6 (expiration
  time 3, wrapping the state as \<open>seen\<close>). One pass at 1 applies both: the state is
  \<open>{seen: 2}\<close>. A pass at 3 skips record 3 and applies the captured record 6, which is
  then gone from the queue while the base state stays before record 3; the pass at 1
  that follows, directly or after the commit of the first pass, applies record 3 only:
  the final state is 2, and the captured update is lost.
\<close>

theorem convergence_with_captured_counterexample:
  "processPasses sampleConstants 0 0 JSNull JSNull [3, 1] mixedHeap \<noteq> None
   \<and> processUpdateQueue sampleConstants 0 0 JSNull JSNull 1 mixedHeap \<noteq> None
   \<and> memoizedState
        (fibers (the (processPasses sampleConstants 0 0 JSNull JSNull [3, 1] mixedHeap)) 0)
       = JSNumber 2
   \<and> memoizedState
        (fibers (the (processUpdateQueue sampleConstants 0 0 JSNull JSNull 1 mixedHeap)) 0)
       = JSObject [''seen'' \<mapsto> JSNumber 2]
   \<and> memoizedState
        (fibers (the (processPasses sampleConstants 0 0 JSNull JSNull [3, 1] mixedHeap)) 0)
       \<noteq> memoizedState
           (fibers (the (processUpdateQueue sampleConstants 0 0 JSNull JSNull 1 mixedHeap)) 0)
   \<and> passThenCommit sampleConstants 0 0 JSNull JSNull 3 mixedHeap \<noteq> None
   \<and> firstUpdate
        (queues (the (passThenCommit sampleConstants 0 0 JSNull JSNull 3 mixedHeap)) 0) = Some 3
   \<and> firstCapturedUpdate
        (queues (the (passThenCommit sampleConstants 0 0 JSNull JSNull 3 mixedHeap)) 0) = None
   \<and> processUpdateQueue sampleConstants 0 0 JSNull JSNull 1
        (the (passThenCommit sampleConstants 0 0 JSNull JSNull 3 mixedHeap)) \<noteq> None
   \<and> memoizedState
        (fibers (the (processUpdateQueue sampleConstants 0 0 JSNull JSNull 1
                        (the (passThenCommit sampleConstants 0 0 JSNull JSNull 3 mixedHeap)))) 0)
       = JSNumber 2"
proof -
  have e: "expirationTime (updates mixedHeap 3) = 1" "expirationTime (updates mixedHeap 6) = 3"
    by (simp_all add: mixedHeap_simps capturedRecord_def createUpdate_def)
  have wq: "workingQueue 0 0 mixedHeap = 0"
    by (simp add: workingQueue_def ensureWorkInProgressQueueIsAClone_def mixedHeap_simps)
  from processUpdateQueue_run [OF mixedHeap_chains, of sampleConstants JSNull JSNull 1]
  obtain h2 where r2: "processUpdateQueue sampleConstants 0 0 JSNull JSNull 1 mixedHeap = Some h2"
    and m2: "memoizedState (fibers h2 0) =
       stateAfter sampleConstants 0 0 JSNull JSNull mixedHeap
         (filter (\<lambda>u. \<not> insufficient mixedHeap 1 u) [6])
         (stateAfter sampleConstants 0 0 JSNull JSNull mixedHeap
            (filter (\<lambda>u. \<not> insufficient mixedHeap 1 u) [3])
            (baseState (queues mixedHeap 0)))"
    by (elim exE conjE) (rule that)
  have f1: "filter (\<lambda>u. \<not> insufficient mixedHeap 1 u) [6] = [6]"
    "filter (\<lambda>u. \<not> insufficient mixedHeap 1 u) [3] = [3]"
    by (simp_all add: insufficient_def e)
  have single: "memoizedState (fibers h2 0) = JSObject [''seen'' \<mapsto> JSNumber 2]"
    unfolding m2 f1 mixedHeap_simps mixedHeap_states ..
  from processUpdateQueue_run [OF mixedHeap_chains, of sampleConstants JSNull JSNull 3]
  obtain h' where r1: "processUpdateQueue sampleConstants 0 0 JSNull JSNull 3 mixedHeap = Some h'"
    and sr: "sameRecords mixedHeap h'"
    and f: "firstUpdate (queues h' (workingQueue 0 0 mixedHeap)) = find (insufficient mixedHeap 3) [3]"
    and g: "firstCapturedUpdate (queues h' (workingQueue 0 0 mixedHeap))
              = find (insufficient mixedHeap 3) [6]"
    and b: "baseState (queues h' (workingQueue 0 0 mixedHeap)) =
       (if find (insufficient mixedHeap 3) [3] \<noteq> None
        then stateAfter sampleConstants 0 0 JSNull JSNull mixedHeap
               (takeWhile (\<lambda>u. \<not> insufficient mixedHeap 3 u) [3]) (baseState (queues mixedHeap 0))
        else if find (insufficient mixedHeap 3) [6] \<noteq> None
        then stateAfter sampleConstants 0 0 JSNull JSNull mixedHeap
               (takeWhile (\<lambda>u. \<not> insufficient mixedHeap 3 u) [6])
               (stateAfter sampleConstants 0 0 JSNull JSNull mixedHeap
                  (filter (\<lambda>u. \<not> insufficient mixedHeap 3 u) [3]) (baseState (queues mixedHeap 0)))
        else memoizedState (fibers h' 0))"
    by (elim exE conjE) (rule that)
  have f': "firstUpdate (queues h' 0) = Some 3"
    using f unfolding wq by (simp add: insufficient_def e)
  have g': "firstCapturedUpdate (queues h' 0) = None"
    using g unfolding wq by (simp add: insufficient_def e)
  have b': "baseState (queues h' 0) = JSNumber 0"
    using b unfolding wq by (simp add: insufficient_def e mixedHeap_simps)
  have "chain (nextOf mixedHeap) (firstUpdate (queues h' 0)) [3]"
    using mixedHeap_chains(1) unfolding f' mixedHeap_simps .
  then have ch: "chain (nextOf h') (firstUpdate (queues h' 0)) [3]"
    using sr by (simp only: chain_cong)
  have wc: "workingCaptured 0 0 h' = None" using g' by (rule workingCaptured_None)
  have el: "\<forall>u \<in> set [3]. 1 \<le> expirationTime (updates h' u)"
    using sameRecords_fields(1) [OF sr, of 3] by (simp add: e)
  from passes_state [OF ch wc el, of sampleConstants JSNull JSNull "[]"]
  obtain h1 where p: "processPasses sampleConstants 0 0 JSNull JSNull [1] h' = Some h1"
    and s: "memoizedState (fibers h1 0)
              = stateAfter sampleConstants 0 0 JSNull JSNull h' [3] (baseState (queues h' 0))"
    by auto
  have "stateAfter sampleConstants 0 0 JSNull JSNull h' [3] (JSNumber 0)
          = stateAfter sampleConstants 0 0 JSNull JSNull mixedHeap [3] (JSNumber 0)"
    using sr by (rule stateAfter_cong)
  then have multi: "memoizedState (fibers h1 0) = JSNumber 2"
    unfolding s b' mixedHeap_states .
  have pp: "processPasses sampleConstants 0 0 JSNull JSNull [3, 1] mixedHeap = Some h1"
    using r1 p by (simp add: wq)
  have ne: "JSNumber 2 \<noteq> JSObject [''seen'' \<mapsto> JSNumber 2]" by simp
  have dj: "set [3] \<inter> set [6::nat] = {}" by simp
  have ap: "appliedWithCallback mixedHeap 3 [3] = []" "appliedWithCallback mixedHeap 3 [6] = []"
    by (simp_all add: appliedWithCallback_def mixedHeap_effects)
  from processUpdateQueue_effects
         [OF mixedHeap_chains dj mixedHeap_effects(1) mixedHeap_effects(2) mixedHeap_effects(3)
             mixedHeap_effects(4), of sampleConstants JSNull JSNull 3]
  obtain k where rk: "processUpdateQueue sampleConstants 0 0 JSNull JSNull 3 mixedHeap = Some k"
    and k1: "chain (nextEffectOf k) (firstEffect (queues k 0)) []"
    and k2: "chain (nextEffectOf k) (firstCapturedEffect (queues k 0)) []"
    unfolding ap wq by (elim exE conjE) (rule that)
  have kh: "k = h'" using rk r1 by simp
  have e1: "chain (nextEffectOf h') (firstEffect (queues h' 0)) []" using k1 unfolding kh .
  have e2: "chain (nextEffectOf h') (firstCapturedEffect (queues h' 0)) []" using k2 unfolding kh .
  have cm: "commitUpdateQueue 0 0 JSNull 3 h' = Some (commitOutcome 0 JSNull [] [] h')"
    using e1 e2 by (rule commitUpdateQueue_eq)
  let ?hc = "setQueue 0 (\<lambda>Q. Q\<lparr>firstCapturedEffect := None, lastCapturedEffect := None\<rparr>)
               (setQueue 0 (\<lambda>Q. Q\<lparr>firstEffect := None, lastEffect := None\<rparr>) h')"
  have co: "commitOutcome 0 JSNull [] [] h' = Inr ?hc"
    by (simp add: commitOutcome_def joinCapturedUpdates_None [OF g'])
  have pc: "passThenCommit sampleConstants 0 0 JSNull JSNull 3 mixedHeap = Some ?hc"
    by (simp add: passThenCommit_def r1 wq cm co)
  have cf: "firstUpdate (queues ?hc 0) = Some 3" using f' by simp
  have cg: "firstCapturedUpdate (queues ?hc 0) = None" using g' by simp
  have cb: "baseState (queues ?hc 0) = JSNumber 0" using b' by simp
  have src: "sameRecords mixedHeap ?hc" using sr by (simp add: sameRecords_def)
  have "chain (nextOf mixedHeap) (firstUpdate (queues ?hc 0)) [3]"
    using mixedHeap_chains(1) unfolding cf mixedHeap_simps .
  then have chc: "chain (nextOf ?hc) (firstUpdate (queues ?hc 0)) [3]"
    using src by (simp only: chain_cong)
  have wcc: "workingCaptured 0 0 ?hc = None" using cg by (rule workingCaptured_None)
  have elc: "\<forall>u \<in> set [3]. 1 \<le> expirationTime (updates ?hc u)"
    using sameRecords_fields(1) [OF src, of 3] by (simp add: e)
  from passes_state [OF chc wcc elc, of sampleConstants JSNull JSNull "[]"]
  obtain h3 where p3: "processPasses sampleConstants 0 0 JSNull JSNull [1] ?hc = Some h3"
    and s3: "memoizedState (fibers h3 0)
              = stateAfter sampleConstants 0 0 JSNull JSNull ?hc [3] (baseState (queues ?hc 0))"
    by auto
  have r3: "processUpdateQueue sampleConstants 0 0 JSNull JSNull 1 ?hc = Some h3"
    using p3 by (simp split: option.splits)
  have "stateAfter sampleConstants 0 0 JSNull JSNull ?hc [3] (JSNumber 0)
          = stateAfter sampleConstants 0 0 JSNull JSNull mixedHeap [3] (JSNumber 0)"
    using src by (rule stateAfter_cong)
  then have third: "memoizedState (fibers h3 0) = JSNumber 2"
    unfolding s3 cb mixedHeap_states .
  show ?thesis
    unfolding pp r2 pc option.sel r3 multi single third using ne cf cg by simp
qed

lemma chain_snoc:
  "chain nx p (xs @ [t]) \<Longrightarrow> u \<notin> set (xs @ [t]) \<Longrightarrow> nx u = None \<Longrightarrow>
   chain (nx(t := Some u)) p (xs @ [t, u])"
proof (induction xs arbitrary: p)
  case Nil
  then show ?case by auto
next
  case (Cons x xs)
  from Cons.prems(1) have p: "p = Some x" and c: "chain nx (nx x) (xs @ [t])" by simp_all
  from c have "x \<notin> set (xs @ [t])" by (rule chain_not_in_tail)
  then have "x \<noteq> t" by simp
  moreover have "chain (nx(t := Some u)) (nx x) (xs @ [t, u])"
    using c Cons.prems(2,3) by (intro Cons.IH) simp_all
  moreover have "(nx(t := Some u)) x = nx x" using \<open>x \<noteq> t\<close> by simp
  ultimately show ?case unfolding p append_Cons chain.simps by simp
qed

lemma twinHeap_simps:
  "updates twinHeap = updates recordsHeap"
  "alternate (fibers twinHeap 0) = Some 2"
  "updateQueue (fibers twinHeap 0) = Some 2"
  "updateQueue (fibers twinHeap 2) = Some 3"
  "firstUpdate (queues twinHeap 2) = Some 2"
  "lastUpdate (queues twinHeap 2) = Some 2"
  "firstUpdate (queues twinHeap 3) = Some 2"
  "lastUpdate (queues twinHeap 3) = Some 2"
  "queueCount twinHeap = 4"
proof -
  have f: "fibers recordsHeap 2 = \<lparr>alternate = None, updateQueue = None, memoizedState = JSNull,
                                     effectTag = 0, fiberExpirationTime = 0\<rparr>"
    by (simp add: recordsHeap_def emptyHeap_def)
  show "updates twinHeap = updates recordsHeap"
    "alternate (fibers twinHeap 0) = Some 2"
    "updateQueue (fibers twinHeap 0) = Some 2"
    "updateQueue (fibers twinHeap 2) = Some 3"
    "firstUpdate (queues twinHeap 2) = Some 2"
    "lastUpdate (queues twinHeap 2) = Some 2"
    "firstUpdate (queues twinHeap 3) = Some 2"
    "lastUpdate (queues twinHeap 3) = Some 2"
    "queueCount twinHeap = 4"
    by (simp_all add: twinHeap_def enqueueUpdate_def enqueueUpdateQueues_def f
          appendUpdateToQueue_def createUpdateQueue_def case_prod_beta Let_def)
qed

text \<open>
  C4. When a fiber and its alternate hold two distinct queue objects whose lists end in
  the same record, \<open>enqueueUpdate\<close> links the new record once: the only change to the
  update records is the \<open>next\<close> pointer of the shared tail record, no queue is
  allocated, \<open>lastUpdate\<close> of both queues is the new record, and the list of each queue
  is its old list followed by the new record, which it holds exactly once.
\<close>

theorem enqueueUpdate_shared_tail:
  assumes "alternate (fibers h fiber) = Some alt"
    and "updateQueue (fibers h fiber) = Some q1"
    and "updateQueue (fibers h alt) = Some q2"
    and "q1 \<noteq> q2"
    and "lastUpdate (queues h q1) = Some t"
    and "lastUpdate (queues h q2) = Some t"
    and "chain (nextOf h) (firstUpdate (queues h q1)) (xs1 @ [t])"
    and "chain (nextOf h) (firstUpdate (queues h q2)) (xs2 @ [t])"
    and "u \<notin> set (xs1 @ [t])"
    and "u \<notin> set (xs2 @ [t])"
    and "nextUpdate (updates h u) = None"
  shows "updates (enqueueUpdate fiber u h) = (updates h)(t := (updates h t)\<lparr>nextUpdate := Some u\<rparr>)
       \<and> queueCount (enqueueUpdate fiber u h) = queueCount h
       \<and> lastUpdate (queues (enqueueUpdate fiber u h) q1) = Some u
       \<and> lastUpdate (queues (enqueueUpdate fiber u h) q2) = Some u
       \<and> chain (nextOf (enqueueUpdate fiber u h))
            (firstUpdate (queues (enqueueUpdate fiber u h) q1)) (xs1 @ [t, u])
       \<and> chain (nextOf (enqueueUpdate fiber u h))
            (firstUpdate (queues (enqueueUpdate fiber u h) q2)) (xs2 @ [t, u])
       \<and> count_list (xs1 @ [t, u]) u = 1
       \<and> count_list (xs2 @ [t, u]) u = 1"
proof -
  let ?h = "enqueueUpdate fiber u h"
  have Q: "enqueueUpdateQueues fiber h = (q1, Some q2, h)"
    using assms(1,2,3) by (simp add: enqueueUpdateQueues_def)
  have H: "?h = setQueue q2 (\<lambda>Q. Q\<lparr>lastUpdate := Some u\<rparr>)
                  (setQueue q1 (\<lambda>Q. Q\<lparr>lastUpdate := Some u\<rparr>)
                     (setUpdate t (\<lambda>U. U\<lparr>nextUpdate := Some u\<rparr>) h))"
    using assms(4,5,6) by (simp add: enqueueUpdate_def Q appendUpdateToQueue_def)
  have a: "updates ?h = (updates h)(t := (updates h t)\<lparr>nextUpdate := Some u\<rparr>)"
    unfolding H by simp
  have b: "queueCount ?h = queueCount h" unfolding H by simp
  have l1: "lastUpdate (queues ?h q1) = Some u" unfolding H using assms(4) by simp
  have l2: "lastUpdate (queues ?h q2) = Some u" unfolding H by simp
  have f1: "firstUpdate (queues ?h q1) = firstUpdate (queues h q1)"
    unfolding H using assms(4) by simp
  have f2: "firstUpdate (queues ?h q2) = firstUpdate (queues h q2)"
    unfolding H by simp
  have nx: "nextOf ?h = (nextOf h)(t := Some u)"
    by (rule ext) (simp add: nextOf_def a)
  have nu: "nextOf h u = None" using assms(11) by (simp add: nextOf_def)
  have c1: "chain (nextOf ?h) (firstUpdate (queues ?h q1)) (xs1 @ [t, u])"
    unfolding nx f1 using assms(7,9) nu by (rule chain_snoc)
  have c2: "chain (nextOf ?h) (firstUpdate (queues ?h q2)) (xs2 @ [t, u])"
    unfolding nx f2 using assms(8,10) nu by (rule chain_snoc)
  have n1: "count_list (xs1 @ [t, u]) u = 1"
    using assms(9) by (simp add: count_list_0_iff)
  have n2: "count_list (xs2 @ [t, u]) u = 1"
    using assms(10) by (simp add: count_list_0_iff)
  show ?thesis by (intro conjI a b l1 l2 c1 c2 n1 n2)
qed

theorem enqueueUpdate_shared_tail_witness:
  "alternate (fibers twinHeap 0) = Some 2
   \<and> updateQueue (fibers twinHeap 0) = Some 2
   \<and> updateQueue (fibers twinHeap 2) = Some 3
   \<and> (2::nat) \<noteq> 3
   \<and> lastUpdate (queues twinHeap 2) = Some 2
   \<and> lastUpdate (queues twinHeap 3) = Some 2
   \<and> chain (nextOf twinHeap) (firstUpdate (queues twinHeap 2)) [2]
   \<and> chain (nextOf twinHeap) (firstUpdate (queues twinHeap 3)) [2]
   \<and> 3 \<notin> set [2::nat]
   \<and> nextUpdate (updates twinHeap 3) = None
   \<and> lastUpdate (queues (enqueueUpdate 0 3 twinHeap) 2) = Some 3
   \<and> lastUpdate (queues (enqueueUpdate 0 3 twinHeap) 3) = Some 3
   \<and> chain (nextOf (enqueueUpdate 0 3 twinHeap))
        (firstUpdate (queues (enqueueUpdate 0 3 twinHeap) 2)) [2, 3]
   \<and> chain (nextOf (enqueueUpdate 0 3 twinHeap))
        (firstUpdate (queues (enqueueUpdate 0 3 twinHeap) 3)) [2, 3]
   \<and> queueCount (enqueueUpdate 0 3 twinHeap) = 4"
proof -
  have ne: "(2::nat) \<noteq> 3" by simp
  have c1: "chain (nextOf twinHeap) (firstUpdate (queues twinHeap 2)) ([] @ [2])"
    by (simp add: twinHeap_simps nextOf_def)
  have c2: "chain (nextOf twinHeap) (firstUpdate (queues twinHeap 3)) ([] @ [2])"
    by (simp add: twinHeap_simps nextOf_def)
  have fr: "3 \<notin> set ([] @ [2::nat])" by simp
  have nu: "nextUpdate (updates twinHeap 3) = None" by (simp add: twinHeap_simps)
  from enqueueUpdate_shared_tail
         [OF twinHeap_simps(2) twinHeap_simps(3) twinHeap_simps(4) ne
             twinHeap_simps(6) twinHeap_simps(8) c1 c2 fr fr nu]
  have r: "queueCount (enqueueUpdate 0 3 twinHeap) = queueCount twinHeap"
    "lastUpdate (queues (enqueueUpdate 0 3 twinHeap) 2) = Some 3"
    "lastUpdate (queues (enqueueUpdate 0 3 twinHeap) 3) = Some 3"
    "chain (nextOf (enqueueUpdate 0 3 twinHeap))
        (firstUpdate (queues (enqueueUpdate 0 3 twinHeap) 2)) ([] @ [2, 3])"
    "chain (nextOf (enqueueUpdate 0 3 twinHeap))
        (firstUpdate (queues (enqueueUpdate 0 3 twinHeap) 3)) ([] @ [2, 3])"
    by blast+
  have q: "queueCount (enqueueUpdate 0 3 twinHeap) = 4"
    unfolding r(1) by (rule twinHeap_simps(9))
  have fr': "3 \<notin> set [2::nat]" by simp
  show ?thesis
    using c1 c2 r(4,5) unfolding append_Nil
    by (intro conjI twinHeap_simps(2) twinHeap_simps(3) twinHeap_simps(4) ne
          twinHeap_simps(6) twinHeap_simps(8) fr' nu r(2) r(3) q)
qed







lemma appliedWithCallback_append:
  "appliedWithCallback h r (xs @ ys) = appliedWithCallback h r xs @ appliedWithCallback h r ys"
  by (simp add: appliedWithCallback_def)












end
